theory Spec2Isabelle
  imports
    Main
    "HOL-Library.AList"
    "HOL-Library.Char_ord"
    "HOL-Library.List_Lexorder"
    "HOL-Library.Multiset"
    "HOL-Library.Sublist"
begin

section \<open>What is modelled\<close>

text \<open>
  The request construction pipeline of requests4go, \<^verbatim>\<open>request.go\<close>:
  \<open>prepareRequest\<close> with \<open>prepareURL\<close>, \<open>prepareURLWithStruct\<close>,
  \<open>mergeParams\<close>, \<open>prepareBody\<close>, \<open>prepareJsonBody\<close>, \<open>prepareFilesBody\<close>,
  \<open>prepareDataBody\<close>, \<open>encodeParams\<close> and \<open>prepareCookies\<close>, each under its own
  name and with its branches in the order of the source. A function returns an error
  as a value and may panic; both are results of the model.

  The Go standard library is the environment of that code. The parts whose behaviour
  the statements below depend on are modelled as functions: \<open>strings.Cut\<close> and
  \<open>strings.Replace\<close>, the query escaping, \<open>url.Values\<close> with \<open>Set\<close>, \<open>Add\<close>,
  \<open>Encode\<close> and \<open>ParseQuery\<close>, base64, the canonical form of header keys,
  \<open>http.Header\<close>, \<open>http.NewRequest\<close>, \<open>SetBasicAuth\<close> and \<open>BasicAuth\<close>, and
  the multipart writer. What a URL's scheme, authority and path parse to, the
  multipart boundary, the cookie jars, \<open>json.Marshal\<close> and \<open>query.Values\<close> are
  left open: they are parameters, or values the bag carries.
\<close>

section \<open>Strings and byte classes\<close>

text \<open>
  A Go \<^verbatim>\<open>string\<close> is a sequence of bytes; so is \<^typ>\<open>string\<close>. A Go
  \<^verbatim>\<open>map[string]string\<close> is an association list with distinct keys. The nil map,
  slice, interface and pointer are \<^term>\<open>None\<close>.

  Go leaves the order in which a \<^verbatim>\<open>range\<close> statement visits a map open. For a
  map that the caller supplies and the code only reads, the order of the list stands for
  it: a statement about every list is a statement about every order. The header map is
  also written by the code, so the list says nothing about where a written key is
  visited; the loop over it visits \<open>rangeMap ns m\<close>, where the choice \<open>ns\<close> is
  open: at each step the entry at index \<open>n mod length\<close> of those left is visited
  next, and when \<open>ns\<close> is used up the rest is visited as listed. Every \<open>ns\<close>
  gives a permutation of the map and every permutation is given by some \<open>ns\<close>
  (lemmas \<open>mset_rangeMap\<close> and \<open>rangeMap_any_order\<close> below).
\<close>

type_synonym gomap = "(string \<times> string) list"

function rangeMap :: "nat list \<Rightarrow> 'a list \<Rightarrow> 'a list" where
  "rangeMap ns [] = []"
| "rangeMap [] (x # xs) = x # xs"
| "rangeMap (n # ns) (x # xs) =
     (let i = n mod length (x # xs)
      in (x # xs) ! i # rangeMap ns (take i (x # xs) @ drop (Suc i) (x # xs)))"
  by pat_completeness auto
termination
  by (relation "measure (\<lambda>(ns, xs). length xs)") auto

definition byte :: "char \<Rightarrow> nat" where
  "byte c = of_char c"

definition isAlnum :: "char \<Rightarrow> bool" where
  "isAlnum c =
     (let n = byte c
      in (97 \<le> n \<and> n \<le> 122) \<or> (65 \<le> n \<and> n \<le> 90) \<or> (48 \<le> n \<and> n \<le> 57))"

text \<open>\<^verbatim>\<open>strings.Cut(s, sep)\<close> for a one-byte separator: before, after, found.\<close>

definition strings_Cut :: "string \<Rightarrow> char \<Rightarrow> string \<times> string \<times> bool" where
  "strings_Cut s sep =
     (takeWhile (\<lambda>c. c \<noteq> sep) s, drop 1 (dropWhile (\<lambda>c. c \<noteq> sep) s), sep \<in> set s)"

text \<open>
  \<^verbatim>\<open>strings.Replace(s, old, new, -1)\<close>: every non-overlapping occurrence of
  \<open>old\<close>, found from the left, is replaced. With an empty \<open>old\<close> Go inserts
  \<open>new\<close> before every character and at the end; \<open>mergeParams\<close> never passes an
  empty pattern.
\<close>

function strings_Replace :: "string \<Rightarrow> string \<Rightarrow> string \<Rightarrow> string" where
  "strings_Replace s old new =
     (if old = [] then new @ concat (map (\<lambda>c. c # new) s)
      else if s = [] then []
      else if prefix old s then new @ strings_Replace (drop (length old) s) old new
      else hd s # strings_Replace (tl s) old new)"
  by pat_completeness auto
termination
  by (relation "measure (\<lambda>(s, old, new). length s)") auto

declare strings_Replace.simps [simp del]

section \<open>Package net/url: escaping and query values\<close>

text \<open>
  \<open>shouldEscape\<close> in mode \<open>encodeQueryComponent\<close>: everything but the unreserved
  characters is escaped.
\<close>

definition shouldEscape :: "char \<Rightarrow> bool" where
  "shouldEscape c =
     (\<not> (isAlnum c \<or> c = CHR ''-'' \<or> c = CHR ''_'' \<or> c = CHR ''.'' \<or> c = CHR ''~''))"

definition upperhex :: "nat \<Rightarrow> char" where
  "upperhex n = ''0123456789ABCDEF'' ! n"

definition ishex :: "char \<Rightarrow> bool" where
  "ishex c =
     (let n = byte c
      in (48 \<le> n \<and> n \<le> 57) \<or> (97 \<le> n \<and> n \<le> 102) \<or> (65 \<le> n \<and> n \<le> 70))"

definition unhex :: "char \<Rightarrow> nat" where
  "unhex c =
     (let n = byte c
      in if 48 \<le> n \<and> n \<le> 57 then n - 48
         else if 97 \<le> n \<and> n \<le> 102 then n - 97 + 10
         else if 65 \<le> n \<and> n \<le> 70 then n - 65 + 10
         else 0)"

definition escapeByte :: "char \<Rightarrow> string" where
  "escapeByte c =
     (if c = CHR '' '' then ''+''
      else if shouldEscape c
        then [CHR ''%'', upperhex (byte c div 16), upperhex (byte c mod 16)]
      else [c])"

definition QueryEscape :: "string \<Rightarrow> string" where
  "QueryEscape s = concat (map escapeByte s)"

text \<open>\<open>QueryUnescape\<close>: \<^term>\<open>None\<close> is the \<open>EscapeError\<close> of a broken \<open>%XX\<close>.\<close>

fun QueryUnescape :: "string \<Rightarrow> string option" where
  "QueryUnescape [] = Some []"
| "QueryUnescape (c # s) =
     (if c = CHR ''%'' then
        (case s of
           h # l # r \<Rightarrow>
             if ishex h \<and> ishex l
             then map_option ((#) (char_of (unhex h * 16 + unhex l))) (QueryUnescape r)
             else None
         | _ \<Rightarrow> None)
      else if c = CHR ''+'' then map_option ((#) CHR '' '') (QueryUnescape s)
      else map_option ((#) c) (QueryUnescape s))"

text \<open>
  \<open>url.Values\<close> is \<^verbatim>\<open>map[string][]string\<close>. Reading a missing key gives the
  nil slice.
\<close>

type_synonym Values = "(string \<times> string list) list"

definition vals :: "Values \<Rightarrow> string \<Rightarrow> string list" where
  "vals v k = (case map_of v k of None \<Rightarrow> [] | Some xs \<Rightarrow> xs)"

definition Values_Set :: "Values \<Rightarrow> string \<Rightarrow> string \<Rightarrow> Values" where
  "Values_Set v k x = AList.update k [x] v"

definition Values_Add :: "Values \<Rightarrow> string \<Rightarrow> string \<Rightarrow> Values" where
  "Values_Add v k x = AList.update k (vals v k @ [x]) v"

text \<open>
  \<open>Values.Encode\<close>: the keys sorted, each value written as \<open>key=value\<close>, both
  escaped, with \<open>&\<close> before every pair but the first.
\<close>

definition writePair :: "string \<Rightarrow> string \<Rightarrow> string \<Rightarrow> string" where
  "writePair k buf x =
     (if buf \<noteq> [] then buf @ ''&'' else buf) @ QueryEscape k @ ''='' @ QueryEscape x"

definition Values_Encode :: "Values \<Rightarrow> string" where
  "Values_Encode v =
     foldl (\<lambda>buf k. foldl (writePair k) buf (vals v k)) [] (sort (map fst v))"

text \<open>
  \<open>parseQuery\<close>, the loop of \<open>url.ParseQuery\<close> (Go 1.17 and later, where a
  semicolon in a pair is an error). The flag is \<open>err != nil\<close>: a pair that fails is
  skipped, the error is kept and the loop goes on.
\<close>

function parseQuery :: "Values \<Rightarrow> string \<Rightarrow> bool \<Rightarrow> Values \<times> bool" where
  "parseQuery m query err =
     (if query = [] then (m, err)
      else
        (case strings_Cut query CHR ''&'' of (key, rest, _) \<Rightarrow>
           if CHR '';'' \<in> set key then parseQuery m rest True
           else if key = [] then parseQuery m rest err
           else
             (case strings_Cut key CHR ''='' of (k, v, _) \<Rightarrow>
                (case QueryUnescape k of
                   None \<Rightarrow> parseQuery m rest True
                 | Some k' \<Rightarrow>
                     (case QueryUnescape v of
                        None \<Rightarrow> parseQuery m rest True
                      | Some v' \<Rightarrow> parseQuery (Values_Add m k' v') rest err)))))"
  by pat_completeness auto

lemma strings_Cut_shorter:
  "(key, y) = strings_Cut query sep \<Longrightarrow> (rest, found) = y \<Longrightarrow> query \<noteq> []
     \<Longrightarrow> length rest < length query"
  using length_dropWhile_le [of "\<lambda>c. c \<noteq> sep" query]
  by (cases "dropWhile (\<lambda>c. c \<noteq> sep) query") (auto simp: strings_Cut_def)

termination parseQuery
  by (relation "measure (\<lambda>(m, query, err). length query)")
     (simp, (simp, erule (2) strings_Cut_shorter)+)

declare parseQuery.simps [simp del]

datatype error = LibError string | Wrapped string error

definition ParseQuery :: "string \<Rightarrow> error + Values" where
  "ParseQuery query =
     (case parseQuery [] query False of
        (m, True) \<Rightarrow> Inl (LibError ''net/url: invalid query'')
      | (m, False) \<Rightarrow> Inr m)"


section \<open>Package net/url: URLs\<close>

text \<open>
  \<open>url.Parse\<close> cuts the fragment off at the first \<open>#\<close> and the query at the first
  \<open>?\<close>; what is left (scheme, authority, path) goes through the scheme, host and path
  parsers, and \<open>URL.String\<close> writes it back escaped. That part of the library is a
  parameter here: \<open>parseHead\<close> gives, for the text before the query, what
  \<open>String\<close> writes for it (\<^term>\<open>None\<close>: the text does not parse), and
  \<open>parseFragment\<close> does the same for a non-empty fragment. The multipart writer's
  random boundary, the order in which the header map is visited and the methods of the
  cookie jars (\<open>http.CookieJar\<close> is an interface) are parameters too.
\<close>

record URL =
  Head :: string
  RawQuery :: string
  ForceQuery :: bool
  Fragment :: "string option"

record Cookie =
  Name :: string
  Value :: string

record 'j lib =
  parseHead :: "string \<Rightarrow> string option"
  parseFragment :: "string \<Rightarrow> string option"
  randomBoundary :: string
  headerOrder :: "nat list"
  jar_Cookies :: "'j \<Rightarrow> URL \<Rightarrow> Cookie list"
  jar_SetCookies :: "'j \<Rightarrow> URL \<Rightarrow> Cookie list \<Rightarrow> 'j"

definition stringContainsCTLByte :: "string \<Rightarrow> bool" where
  "stringContainsCTLByte s = list_ex (\<lambda>c. byte c < 32 \<or> byte c = 127) s"

definition splitQuery :: "string \<Rightarrow> string \<times> string \<times> bool" where
  "splitQuery u =
     (if suffix ''?'' u \<and> count_list u CHR ''?'' = 1 then (butlast u, [], True)
      else (case strings_Cut u CHR ''?'' of (rest, query, _) \<Rightarrow> (rest, query, False)))"

definition url_Parse :: "'j lib \<Rightarrow> string \<Rightarrow> error + URL" where
  "url_Parse lib rawURL =
     (case strings_Cut rawURL CHR ''#'' of (u, frag, _) \<Rightarrow>
        if stringContainsCTLByte u
        then Inl (LibError ''net/url: invalid control character in URL'')
        else
          (case splitQuery u of (rest, query, force) \<Rightarrow>
             (case parseHead lib rest of
                None \<Rightarrow> Inl (LibError ''parse'')
              | Some h \<Rightarrow>
                  if frag = []
                  then Inr \<lparr>Head = h, RawQuery = query, ForceQuery = force, Fragment = None\<rparr>
                  else
                    (case parseFragment lib frag of
                       None \<Rightarrow> Inl (LibError ''parse'')
                     | Some f \<Rightarrow>
                         Inr \<lparr>Head = h, RawQuery = query, ForceQuery = force,
                              Fragment = Some f\<rparr>))))"

definition URL_String :: "URL \<Rightarrow> string" where
  "URL_String u =
     Head u
     @ (if ForceQuery u \<or> RawQuery u \<noteq> [] then CHR ''?'' # RawQuery u else [])
     @ (case Fragment u of None \<Rightarrow> [] | Some f \<Rightarrow> CHR ''#'' # f)"

section \<open>request.go: the query merger\<close>

definition entries :: "('k \<times> 'v) list option \<Rightarrow> ('k \<times> 'v) list" where
  "entries m = (case m of None \<Rightarrow> [] | Some al \<Rightarrow> al)"

definition mergeParams :: "URL \<Rightarrow> Values \<Rightarrow> string" where
  "mergeParams parsedUrl rawQuery =
     (let newUrl = strings_Replace (URL_String parsedUrl) (CHR ''?'' # RawQuery parsedUrl) []
      in newUrl @ ''?'' @ Values_Encode rawQuery)"

definition prepareURL :: "'j lib \<Rightarrow> string \<Rightarrow> gomap option \<Rightarrow> error + string" where
  "prepareURL lib originUrl params =
     (if length (entries params) = 0 then Inr originUrl
      else
        (case url_Parse lib originUrl of
           Inl err \<Rightarrow> Inl (Wrapped ''prepareURL error'' err)
         | Inr parsedUrl \<Rightarrow>
             (case ParseQuery (RawQuery parsedUrl) of
                Inl err \<Rightarrow> Inl (Wrapped ''prepareJsonBody error'' err)
              | Inr rawQuery \<Rightarrow>
                  Inr (mergeParams parsedUrl
                         (foldl (\<lambda>q (k, v). Values_Set q k v) rawQuery (entries params))))))"

text \<open>
  A structured query object reaches this code only through \<open>query.Values\<close> of
  go-querystring, so it is represented by what that call returns for it: an error, or
  the \<open>url.Values\<close> of its fields.
\<close>

type_synonym object = "error + Values"

definition addAll :: "Values \<Rightarrow> string \<times> string list \<Rightarrow> Values" where
  "addAll q kvs = foldl (\<lambda>q v. Values_Add q (fst kvs) v) q (snd kvs)"

definition prepareURLWithStruct :: "'j lib \<Rightarrow> string \<Rightarrow> object \<Rightarrow> error + string" where
  "prepareURLWithStruct lib originUrl paramStruct =
     (case url_Parse lib originUrl of
        Inl err \<Rightarrow> Inl (Wrapped ''prepareURLWithStruct error'' err)
      | Inr parsedUrl \<Rightarrow>
          (case ParseQuery (RawQuery parsedUrl) of
             Inl err \<Rightarrow> Inl (Wrapped ''prepareURLWithStruct error'' err)
           | Inr rawQuery \<Rightarrow>
               (case paramStruct of
                  Inl err \<Rightarrow> Inl (Wrapped ''prepareURLWithStruct error'' err)
                | Inr params \<Rightarrow> Inr (mergeParams parsedUrl (foldl addAll rawQuery params)))))"


section \<open>Packages encoding/base64, net/textproto and net/http\<close>

text \<open>
  \<open>base64.StdEncoding\<close>: three bytes make four characters of the alphabet; a last
  group of one or two bytes is padded with \<open>=\<close>. The decoder skips line breaks,
  takes padding only in the last group, and fails on any other character.
\<close>

definition encodeStd :: string where
  "encodeStd = ''ABCDEFGHIJKLMNOPQRSTUVWXYZabcdefghijklmnopqrstuvwxyz0123456789+/''"

definition b64char :: "nat \<Rightarrow> char" where
  "b64char n = encodeStd ! n"

definition b64val :: "char \<Rightarrow> nat option" where
  "b64val c =
     (let i = length (takeWhile (\<lambda>x. x \<noteq> c) encodeStd)
      in if i < 64 then Some i else None)"

fun base64_EncodeToString :: "string \<Rightarrow> string" where
  "base64_EncodeToString [] = []"
| "base64_EncodeToString [a] =
     [b64char (byte a div 4), b64char (byte a mod 4 * 16), CHR ''='', CHR ''='']"
| "base64_EncodeToString [a, b] =
     [b64char (byte a div 4), b64char (byte a mod 4 * 16 + byte b div 16),
      b64char (byte b mod 16 * 4), CHR ''='']"
| "base64_EncodeToString (a # b # c # s) =
     [b64char (byte a div 4), b64char (byte a mod 4 * 16 + byte b div 16),
      b64char (byte b mod 16 * 4 + byte c div 64), b64char (byte c mod 64)]
     @ base64_EncodeToString s"

definition quantum1 :: "char \<Rightarrow> char \<Rightarrow> string option" where
  "quantum1 a b =
     (case (b64val a, b64val b) of
        (Some w, Some x) \<Rightarrow> Some [char_of (w * 4 + x div 16)]
      | _ \<Rightarrow> None)"

definition quantum2 :: "char \<Rightarrow> char \<Rightarrow> char \<Rightarrow> string option" where
  "quantum2 a b c =
     (case (b64val a, b64val b, b64val c) of
        (Some w, Some x, Some y) \<Rightarrow>
          Some [char_of (w * 4 + x div 16), char_of (x mod 16 * 16 + y div 4)]
      | _ \<Rightarrow> None)"

definition quantum3 :: "char \<Rightarrow> char \<Rightarrow> char \<Rightarrow> char \<Rightarrow> string option" where
  "quantum3 a b c d =
     (case (b64val a, b64val b, b64val c, b64val d) of
        (Some w, Some x, Some y, Some z) \<Rightarrow>
          Some [char_of (w * 4 + x div 16), char_of (x mod 16 * 16 + y div 4),
                char_of (y mod 4 * 64 + z)]
      | _ \<Rightarrow> None)"

fun decodeQuanta :: "string \<Rightarrow> string option" where
  "decodeQuanta [] = Some []"
| "decodeQuanta [a, b, c, d] =
     (if c = CHR ''='' \<and> d = CHR ''='' then quantum1 a b
      else if d = CHR ''='' then quantum2 a b c
      else quantum3 a b c d)"
| "decodeQuanta (a # b # c # d # s) =
     (case quantum3 a b c d of
        None \<Rightarrow> None
      | Some bs \<Rightarrow> map_option ((@) bs) (decodeQuanta s))"
| "decodeQuanta _ = None"

definition base64_DecodeString :: "string \<Rightarrow> string option" where
  "base64_DecodeString s =
     decodeQuanta (filter (\<lambda>c. c \<noteq> CHR 0x0A \<and> c \<noteq> CHR 0x0D) s)"

text \<open>
  Header keys: \<open>textproto.CanonicalMIMEHeaderKey\<close> leaves a key with a byte that is
  not a token character as it is; otherwise the first letter and every letter after a
  hyphen are made upper case, the others lower case.
\<close>

definition isTokenByte :: "char \<Rightarrow> bool" where
  "isTokenByte c =
     (isAlnum c \<or>
      List.member
        [CHR ''!'', CHR ''#'', CHR ''$'', CHR ''%'', CHR ''&'', CHR 0x27, CHR ''*'', CHR ''+'',
         CHR ''-'', CHR ''.'', CHR ''^'', CHR ''_'', CHR 0x60, CHR ''|'', CHR ''~''] c)"

definition canonByte :: "bool \<Rightarrow> char \<Rightarrow> char" where
  "canonByte upper c =
     (if upper \<and> 97 \<le> byte c \<and> byte c \<le> 122 then char_of (byte c - 32)
      else if \<not> upper \<and> 65 \<le> byte c \<and> byte c \<le> 90 then char_of (byte c + 32)
      else c)"

fun canonLoop :: "bool \<Rightarrow> string \<Rightarrow> string" where
  "canonLoop upper [] = []"
| "canonLoop upper (c # s) = canonByte upper c # canonLoop (canonByte upper c = CHR ''-'') s"

definition CanonicalMIMEHeaderKey :: "string \<Rightarrow> string" where
  "CanonicalMIMEHeaderKey s = (if list_all isTokenByte s then canonLoop True s else s)"

text \<open>\<open>http.Header\<close> has the type of \<open>url.Values\<close>: \<^verbatim>\<open>map[string][]string\<close>.\<close>

type_synonym Header = Values

definition Header_Set :: "Header \<Rightarrow> string \<Rightarrow> string \<Rightarrow> Header" where
  "Header_Set h key v = AList.update (CanonicalMIMEHeaderKey key) [v] h"

definition Header_Get :: "Header \<Rightarrow> string \<Rightarrow> string" where
  "Header_Get h key =
     (case vals h (CanonicalMIMEHeaderKey key) of [] \<Rightarrow> [] | v # _ \<Rightarrow> v)"

text \<open>
  Readers. The multipart message is kept as its boundary and its parts, not as the
  bytes the writer makes of them.
\<close>

datatype part = FormFile string string string | FormField string string

datatype reader =
    StringsReader string
  | BytesReader string
  | MultipartBuffer string "part list"
  | OtherReader string

record Request =
  Method :: string
  ReqURL :: URL
  Header :: Header
  ReqBody :: "reader option"

definition validMethod :: "string \<Rightarrow> bool" where
  "validMethod method = (method \<noteq> [] \<and> list_all isTokenByte method)"

definition http_NewRequest ::
  "'j lib \<Rightarrow> string \<Rightarrow> string \<Rightarrow> reader option \<Rightarrow> error + Request" where
  "http_NewRequest lib method url body =
     (let m = (if method = [] then ''GET'' else method)
      in if \<not> validMethod m then Inl (LibError ''net/http: invalid method'')
         else
           (case url_Parse lib url of
              Inl err \<Rightarrow> Inl err
            | Inr u \<Rightarrow> Inr \<lparr>Method = m, ReqURL = u, Header = [], ReqBody = body\<rparr>))"

definition SetBasicAuth :: "Request \<Rightarrow> string \<Rightarrow> string \<Rightarrow> Request" where
  "SetBasicAuth r username password =
     r\<lparr>Header :=
         Header_Set (Header r) ''Authorization''
           (''Basic '' @ base64_EncodeToString (username @ '':'' @ password))\<rparr>"

text \<open>
  \<open>Request.BasicAuth\<close>, the decoder the tests read the header back with: the
  scheme is compared without regard to case, the rest is decoded and cut at the first
  colon.
\<close>

definition lowerByte :: "char \<Rightarrow> char" where
  "lowerByte c = (if 65 \<le> byte c \<and> byte c \<le> 90 then char_of (byte c + 32) else c)"

definition parseBasicAuth :: "string \<Rightarrow> (string \<times> string) option" where
  "parseBasicAuth auth =
     (if length auth < 6 \<or> map lowerByte (take 6 auth) \<noteq> ''basic '' then None
      else
        (case base64_DecodeString (drop 6 auth) of
           None \<Rightarrow> None
         | Some cs \<Rightarrow>
             (case strings_Cut cs CHR '':'' of
                (username, password, ok) \<Rightarrow> if ok then Some (username, password) else None)))"

definition BasicAuth :: "Request \<Rightarrow> (string \<times> string) option" where
  "BasicAuth r =
     (let auth = Header_Get (Header r) ''Authorization''
      in if auth = [] then None else parseBasicAuth auth)"


section \<open>Package mime/multipart and the file streams\<close>

text \<open>
  An \<open>io.ReadCloser\<close> is an object on the heap: what is left to read, whether
  reading it fails, whether closing it fails, whether it refuses \<open>Read\<close> and
  \<open>Close\<close> once it has been closed (an \<^verbatim>\<open>*os.File\<close> does, an
  \<open>io.NopCloser\<close> does not), and how often \<open>Close\<close> was called. A
  \<open>FileField\<close> holds the address of its stream (\<^term>\<open>None\<close>: the nil
  interface), so two fields may hold the same stream.
\<close>

record stream =
  content :: string
  readErr :: bool
  closeErr :: bool
  failsOnceClosed :: bool
  closes :: nat

record FileField =
  FileName :: string
  FieldName :: string
  FileContent :: "nat option"

definition multipart_CreateFormFile :: "part list \<Rightarrow> string \<Rightarrow> string \<Rightarrow> error + part list" where
  "multipart_CreateFormFile w fieldname filename = Inr (w @ [FormFile fieldname filename []])"

definition multipart_WriteField :: "part list \<Rightarrow> string \<Rightarrow> string \<Rightarrow> error + part list" where
  "multipart_WriteField w fieldname v = Inr (w @ [FormField fieldname v])"

definition multipart_Close :: "part list \<Rightarrow> error + part list" where
  "multipart_Close w = Inr w"

definition FormDataContentType :: "string \<Rightarrow> string" where
  "FormDataContentType b = ''multipart/form-data; boundary='' @ b"

definition partWrite :: "part list \<Rightarrow> string \<Rightarrow> part list" where
  "partWrite w bytes =
     (case rev w of
        FormFile fieldname filename c # ps \<Rightarrow> rev (FormFile fieldname filename (c @ bytes) # ps)
      | _ \<Rightarrow> w)"

text \<open>\<open>io.Copy\<close> into the part that \<open>CreateFormFile\<close> opened.\<close>

definition io_Copy :: "part list \<Rightarrow> stream \<Rightarrow> (error + part list) \<times> stream" where
  "io_Copy w src =
     (if readErr src \<or> (failsOnceClosed src \<and> 0 < closes src)
      then (Inl (LibError ''read''), src)
      else (Inr (partWrite w (content src)), src\<lparr>content := []\<rparr>))"

definition stream_Close :: "stream \<Rightarrow> (error + unit) \<times> stream" where
  "stream_Close src =
     (if closeErr src \<or> (failsOnceClosed src \<and> 0 < closes src)
      then Inl (LibError ''close'') else Inr (),
      src\<lparr>closes := Suc (closes src)\<rparr>)"

section \<open>request.go: the body encoder\<close>

text \<open>
  A call ends in one of three ways: it returns a value, it returns an error, or it
  panics (and the process aborts, nothing recovers).
\<close>

datatype panic = NilMapAssignment | IndexOutOfRange | NilDereference

datatype 'a outcome = Ok 'a | Err error | Panic panic

text \<open>
  The \<open>Json\<close> field is an \<^verbatim>\<open>interface{}\<close>: a string, a byte slice, or any
  other value, which is known to this code only through what \<open>json.Marshal\<close>
  returns for it.
\<close>

datatype json = JsonString string | JsonBytes string | JsonValue "error + string"

record RequestArguments =
  Client :: "nat option"
  Headers :: "gomap option"
  Body :: "reader option"
  Params :: "gomap option"
  ObjectParam :: "object option"
  Auth :: "string list option"
  Cookies :: "gomap option"
  CookieJar :: "nat option"
  Json :: "json option"
  Data :: "gomap option"
  Files :: "FileField list option"
  RedirectLimit :: int
  Timeout :: int

text \<open>
  The heap: the \<open>Jar\<close> field of every \<open>http.Client\<close>, the state of every cookie
  jar, and the file streams.
\<close>

record 'j world =
  clientJar :: "nat \<Rightarrow> nat option"
  jars :: "nat \<Rightarrow> 'j"
  streams :: "nat \<Rightarrow> stream"

text \<open>
  Modelled from the spec: the constants \<open>defaultJsonType\<close> and
  \<open>defaultContentType\<close> are declared outside \<^verbatim>\<open>src/\<close>; section 4.2 of the spec
  gives their values.
\<close>

definition defaultJsonType :: string where
  "defaultJsonType = ''application/json''"

definition defaultContentType :: string where
  "defaultContentType = ''application/x-www-form-urlencoded''"

fun copyFiles ::
  "part list \<Rightarrow> FileField list \<Rightarrow> (nat \<Rightarrow> stream) \<Rightarrow> part list outcome \<times> (nat \<Rightarrow> stream)" where
  "copyFiles writer [] st = (Ok writer, st)"
| "copyFiles writer (file # files) st =
     (case multipart_CreateFormFile writer (FieldName file) (FileName file) of
        Inl err \<Rightarrow> (Err (Wrapped ''prepareFilesBody error'' err), st)
      | Inr fileWriter \<Rightarrow>
          (case FileContent file of
             None \<Rightarrow> (Panic NilDereference, st)
           | Some h \<Rightarrow>
               (case io_Copy fileWriter (st h) of
                  (Inl err, src) \<Rightarrow> (Err err, st(h := src))
                | (Inr written, src) \<Rightarrow>
                    (case stream_Close src of
                       (Inl err, src') \<Rightarrow> (Err err, st(h := src'))
                     | (Inr _, src') \<Rightarrow> copyFiles written files (st(h := src'))))))"

fun writeFields :: "part list \<Rightarrow> gomap \<Rightarrow> part list outcome" where
  "writeFields writer [] = Ok writer"
| "writeFields writer ((key, v) # data) =
     (case multipart_WriteField writer key v of
        Inl err \<Rightarrow> Err (Wrapped ''prepareFilesBody error'' err)
      | Inr writer' \<Rightarrow> writeFields writer' data)"

definition prepareFilesBody ::
  "'j lib \<Rightarrow> FileField list \<Rightarrow> gomap option \<Rightarrow> (nat \<Rightarrow> stream)
     \<Rightarrow> (reader \<times> string) outcome \<times> (nat \<Rightarrow> stream)" where
  "prepareFilesBody lib files data st =
     (case copyFiles [] files st of
        (Panic p, st') \<Rightarrow> (Panic p, st')
      | (Err err, st') \<Rightarrow> (Err err, st')
      | (Ok writer, st') \<Rightarrow>
          (case writeFields writer (entries data) of
             Panic p \<Rightarrow> (Panic p, st')
           | Err err \<Rightarrow> (Err err, st')
           | Ok writer' \<Rightarrow>
               (case multipart_Close writer' of
                  Inl err \<Rightarrow> (Err (Wrapped ''prepareFilesBody error'' err), st')
                | Inr body \<Rightarrow>
                    (Ok (MultipartBuffer (randomBoundary lib) body,
                         FormDataContentType (randomBoundary lib)), st'))))"

definition encodeParams :: "gomap option \<Rightarrow> string" where
  "encodeParams data =
     Values_Encode (foldl (\<lambda>vs (k, v). Values_Set vs k v) [] (entries data))"

definition prepareDataBody :: "gomap option \<Rightarrow> error + reader" where
  "prepareDataBody data = Inr (StringsReader (encodeParams data))"

definition prepareJsonBody :: "json \<Rightarrow> error + reader" where
  "prepareJsonBody JSON =
     (case JSON of
        JsonString s \<Rightarrow> Inr (StringsReader s)
      | JsonBytes b \<Rightarrow> Inr (BytesReader b)
      | JsonValue marshalled \<Rightarrow>
          (case marshalled of
             Inl err \<Rightarrow> Inl (Wrapped ''prepareJsonBody error'' err)
           | Inr byteS \<Rightarrow> Inr (BytesReader byteS)))"

text \<open>
  \<open>args.Headers[k] = v\<close>: writing to a nil map panics; otherwise the map the bag
  points to is updated. Where the written key stands in the list says nothing about
  when a loop over the map visits it: that is \<open>rangeMap\<close>'s choice.
\<close>

definition setHeader :: "RequestArguments \<Rightarrow> string \<Rightarrow> string \<Rightarrow> RequestArguments option" where
  "setHeader args k v =
     (case Headers args of
        None \<Rightarrow> None
      | Some hs \<Rightarrow> Some (args\<lparr>Headers := Some (AList.update k v hs)\<rparr>))"

definition returned :: "error + 'a \<Rightarrow> 'a option outcome" where
  "returned r = (case r of Inl err \<Rightarrow> Err err | Inr x \<Rightarrow> Ok (Some x))"

definition prepareBody ::
  "'j lib \<Rightarrow> RequestArguments \<Rightarrow> 'j world
     \<Rightarrow> reader option outcome \<times> RequestArguments \<times> 'j world" where
  "prepareBody lib args w =
     (case Body args of
        Some body \<Rightarrow> (Ok (Some body), args, w)
      | None \<Rightarrow>
     (case Json args of
        Some JSON \<Rightarrow>
          (case setHeader args ''Content-Type'' defaultJsonType of
             None \<Rightarrow> (Panic NilMapAssignment, args, w)
           | Some args' \<Rightarrow> (returned (prepareJsonBody JSON), args', w))
      | None \<Rightarrow>
     (case Files args of
        Some files \<Rightarrow>
          (case prepareFilesBody lib files (Data args) (streams w) of
             (Panic p, st) \<Rightarrow> (Panic p, args, w\<lparr>streams := st\<rparr>)
           | (Err err, st) \<Rightarrow>
               (case setHeader args ''Content-type'' [] of
                  None \<Rightarrow> (Panic NilMapAssignment, args, w\<lparr>streams := st\<rparr>)
                | Some args' \<Rightarrow> (Err err, args', w\<lparr>streams := st\<rparr>))
           | (Ok (body, contentType), st) \<Rightarrow>
               (case setHeader args ''Content-type'' contentType of
                  None \<Rightarrow> (Panic NilMapAssignment, args, w\<lparr>streams := st\<rparr>)
                | Some args' \<Rightarrow> (Ok (Some body), args', w\<lparr>streams := st\<rparr>)))
      | None \<Rightarrow>
     (case Data args of
        Some data \<Rightarrow>
          (case setHeader args ''Content-Type'' defaultContentType of
             None \<Rightarrow> (Panic NilMapAssignment, args, w)
           | Some args' \<Rightarrow> (returned (prepareDataBody (Some data)), args', w))
      | None \<Rightarrow> (Ok None, args, w)))))"

section \<open>request.go: cookies and the request assembler\<close>

text \<open>
  Modelled from the spec: \<open>cookiesFromMap\<close> is defined outside \<^verbatim>\<open>src/\<close>; section
  4.5 of the spec says it converts the supplied cookies to the underlying cookie
  representation.
\<close>

definition cookiesFromMap :: "gomap \<Rightarrow> Cookie list" where
  "cookiesFromMap m = map (\<lambda>(k, v). \<lparr>Name = k, Value = v\<rparr>) m"

text \<open>
  \<open>prepareCookies\<close>; \<open>req\<close> is \<^term>\<open>None\<close> when \<open>http.NewRequest\<close> returned
  nil. Reading a field through a nil pointer and calling a method of a nil interface
  panic.
\<close>

definition prepareCookies ::
  "'j lib \<Rightarrow> RequestArguments \<Rightarrow> Request option \<Rightarrow> 'j world \<Rightarrow> unit outcome \<times> 'j world" where
  "prepareCookies lib args req w =
     (case CookieJar args of
        Some jar \<Rightarrow>
          (case Client args of
             None \<Rightarrow> (Panic NilDereference, w)
           | Some c \<Rightarrow> (Ok (), w\<lparr>clientJar := (clientJar w)(c := Some jar)\<rparr>))
      | None \<Rightarrow>
          (case Cookies args of
             None \<Rightarrow> (Ok (), w)
           | Some cookieMap \<Rightarrow>
               (case (Client args, req) of
                  (Some c, Some r) \<Rightarrow>
                    (case clientJar w c of
                       None \<Rightarrow> (Panic NilDereference, w)
                     | Some jar \<Rightarrow>
                         (let cookies = jar_Cookies lib (jars w jar) (ReqURL r);
                              cusCookie = cookiesFromMap cookieMap;
                              cookies = cookies @ cusCookie
                          in (Ok (),
                              w\<lparr>jars := (jars w)
                                  (jar := jar_SetCookies lib (jars w jar) (ReqURL r) cookies)\<rparr>)))
                | _ \<Rightarrow> (Panic NilDereference, w))))"

text \<open>The switch at the head of \<open>prepareRequest\<close> (lines 125 to 134).\<close>

definition prepareRequest_url :: "'j lib \<Rightarrow> string \<Rightarrow> RequestArguments \<Rightarrow> error + string" where
  "prepareRequest_url lib reqUrl args =
     (if length (entries (Params args)) \<noteq> 0 then prepareURL lib reqUrl (Params args)
      else
        (case ObjectParam args of
           Some paramStruct \<Rightarrow> prepareURLWithStruct lib reqUrl paramStruct
         | None \<Rightarrow> Inr reqUrl))"

text \<open>
  Lines 144 to 146. \<open>req\<close> is what \<open>http.NewRequest\<close> returned: a request, or nil
  with an error, which is looked at only in the last line of \<open>prepareRequest\<close>. The
  two index expressions are evaluated before the call.
\<close>

definition prepareRequest_auth ::
  "string list option \<Rightarrow> error + Request \<Rightarrow> (error + Request) outcome" where
  "prepareRequest_auth auth req =
     (case auth of
        None \<Rightarrow> Ok req
      | Some a \<Rightarrow>
          if length a < 2 then Panic IndexOutOfRange
          else
            (case req of
               Inl err \<Rightarrow> Panic NilDereference
             | Inr r \<Rightarrow> Ok (Inr (SetBasicAuth r (a ! 0) (a ! 1)))))"

text \<open>
  Lines 148 to 150: the loop over the header map, which visits its entries in the order
  \<open>rangeMap order hs\<close>. On a nil request the first visit panics, whichever entry it
  is.
\<close>

definition prepareRequest_headers ::
  "nat list \<Rightarrow> gomap \<Rightarrow> error + Request \<Rightarrow> (error + Request) outcome" where
  "prepareRequest_headers order hs req =
     (case req of
        Inl err \<Rightarrow> if hs = [] then Ok req else Panic NilDereference
      | Inr r \<Rightarrow>
          Ok (Inr (r\<lparr>Header :=
                      foldl (\<lambda>h (k, v). Header_Set h k v) (Header r)
                        (rangeMap order hs)\<rparr>)))"

definition prepareRequest ::
  "'j lib \<Rightarrow> string \<Rightarrow> string \<Rightarrow> RequestArguments \<Rightarrow> 'j world
     \<Rightarrow> Request outcome \<times> RequestArguments \<times> 'j world" where
  "prepareRequest lib method reqUrl args w =
     (case prepareRequest_url lib reqUrl args of
        Inl err \<Rightarrow> (Err err, args, w)
      | Inr reqUrl' \<Rightarrow>
          (case prepareBody lib args w of
             (Panic p, args', w') \<Rightarrow> (Panic p, args', w')
           | (Err err, args', w') \<Rightarrow> (Err (Wrapped ''prepareRequest error'' err), args', w')
           | (Ok body, args', w') \<Rightarrow>
               (case prepareRequest_auth (Auth args')
                       (http_NewRequest lib method reqUrl' body) of
                  Panic p \<Rightarrow> (Panic p, args', w')
                | Err err \<Rightarrow> (Err err, args', w')
                | Ok req1 \<Rightarrow>
                    (case prepareRequest_headers (headerOrder lib) (entries (Headers args')) req1 of
                       Panic p \<Rightarrow> (Panic p, args', w')
                     | Err err \<Rightarrow> (Err err, args', w')
                     | Ok req2 \<Rightarrow>
                         (case prepareCookies lib args'
                                 (case req2 of Inl err \<Rightarrow> None | Inr r \<Rightarrow> Some r) w' of
                            (Panic p, w'') \<Rightarrow> (Panic p, args', w'')
                          | (Err err, w'') \<Rightarrow> (Err err, args', w'')
                          | (Ok _, w'') \<Rightarrow>
                              (case req2 of
                                 Inl err \<Rightarrow> (Err err, args', w'')
                               | Inr r \<Rightarrow> (Ok r, args', w'')))))))"


section \<open>Notions used in the statements and proofs\<close>

text \<open>The characters \<open>QueryEscape\<close> can write.\<close>

definition queryChar :: "char \<Rightarrow> bool" where
  "queryChar c = (isAlnum c \<or> c = CHR ''-'' \<or> c = CHR ''_'' \<or> c = CHR ''.'' \<or> c = CHR ''~''
      \<or> c = CHR ''+'' \<or> c = CHR ''%'')"

text \<open>
  One \<open>key=value\<close> queryPair as \<open>Values.Encode\<close> writes it, a list of them joined by
  \<open>&\<close>, and the pairs of a \<open>url.Values\<close> in the order \<open>Encode\<close> writes them.
\<close>

definition queryPair :: "string \<times> string \<Rightarrow> string" where
  "queryPair kv = QueryEscape (fst kv) @ ''='' @ QueryEscape (snd kv)"

fun joinPairs :: "(string \<times> string) list \<Rightarrow> string" where
  "joinPairs [] = []"
| "joinPairs [kv] = queryPair kv"
| "joinPairs (kv # kvs) = queryPair kv @ ''&'' @ joinPairs kvs"

definition pairsOf :: "Values \<Rightarrow> (string \<times> string) list" where
  "pairsOf v = concat (map (\<lambda>k. map (Pair k) (vals v k)) (sort (map fst v)))"

text \<open>Every key of the map has at least one value.\<close>

definition nonemptyValues :: "Values \<Rightarrow> bool" where
  "nonemptyValues v = ([] \<notin> snd ` set v)"

section \<open>The body strategies, as the spec names them\<close>

text \<open>
  Section 4.2 of the spec: the resolution order is first match wins, explicit body, then
  json, then files, then data, then none. \<open>onlyStrategy s\<close> is the bag with the fields
  of the other strategies taken out (the files strategy itself reads \<open>Data\<close> for its
  form fields), and \<open>strategyContentType\<close> is the one header entry a strategy writes
  when it succeeds.
\<close>

datatype strategy = ExplicitBody | JsonBody | MultipartFiles | FormData | NoBody

definition selectStrategy :: "RequestArguments \<Rightarrow> strategy" where
  "selectStrategy args =
     (if Body args \<noteq> None then ExplicitBody
      else if Json args \<noteq> None then JsonBody
      else if Files args \<noteq> None then MultipartFiles
      else if Data args \<noteq> None then FormData
      else NoBody)"

fun onlyStrategy :: "strategy \<Rightarrow> RequestArguments \<Rightarrow> RequestArguments" where
  "onlyStrategy ExplicitBody args = args\<lparr>Json := None, Files := None, Data := None\<rparr>"
| "onlyStrategy JsonBody args = args\<lparr>Body := None, Files := None, Data := None\<rparr>"
| "onlyStrategy MultipartFiles args = args\<lparr>Body := None, Json := None\<rparr>"
| "onlyStrategy FormData args = args\<lparr>Body := None, Json := None, Files := None\<rparr>"
| "onlyStrategy NoBody args = args\<lparr>Body := None, Json := None, Files := None, Data := None\<rparr>"

fun strategyContentType :: "'j lib \<Rightarrow> strategy \<Rightarrow> (string \<times> string) option" where
  "strategyContentType lib ExplicitBody = None"
| "strategyContentType lib JsonBody = Some (''Content-Type'', defaultJsonType)"
| "strategyContentType lib MultipartFiles =
     Some (''Content-type'', FormDataContentType (randomBoundary lib))"
| "strategyContentType lib FormData = Some (''Content-Type'', defaultContentType)"
| "strategyContentType lib NoBody = None"

section \<open>Example values\<close>

text \<open>
  The library's answers at the URLs of the examples below (\<open>url.Parse\<close> followed by
  \<open>String\<close> gives these texts back unchanged), a fixed boundary, the header map
  visited in the order of its list, and a cookie jar that keeps, for each URL, the
  cookies last set for it. Stream 1 cannot be read, stream 2 cannot be closed, and
  stream 7 behaves like a file: once closed it can be neither read nor closed.
\<close>

definition exampleLib :: "(string \<times> Cookie list) list lib" where
  "exampleLib =
     \<lparr>parseHead =
        (\<lambda>s. if List.member
                  [''http://simple.org/path/'', ''http://example.com'', ''http://x/''] s
              then Some s else None),
      parseFragment =
        (\<lambda>f. if List.member [''frag'', ''frag?a=x&b=1''] f then Some f else None),
      randomBoundary = ''7d1b2c'',
      headerOrder = [],
      jar_Cookies = (\<lambda>j u. case map_of j (Head u) of None \<Rightarrow> [] | Some cs \<Rightarrow> cs),
      jar_SetCookies = (\<lambda>j u cs. AList.update (Head u) cs j)\<rparr>"

definition emptyArgs :: RequestArguments where
  "emptyArgs =
     \<lparr>Client = Some 0, Headers = Some [], Body = None, Params = None, ObjectParam = None,
      Auth = None, Cookies = None, CookieJar = None, Json = None, Data = None, Files = None,
      RedirectLimit = 0, Timeout = 0\<rparr>"

definition exampleWorld :: "(string \<times> Cookie list) list world" where
  "exampleWorld =
     \<lparr>clientJar = (\<lambda>c. if c = 0 then Some 0 else None),
      jars = (\<lambda>j. []),
      streams =
        (\<lambda>h. \<lparr>content = ''file data'', readErr = (h = 1), closeErr = (h = 2),
              failsOnceClosed = (h = 7), closes = 0\<rparr>)\<rparr>"

section \<open>Visiting a map: every order and nothing but orders\<close>

lemma mset_without_nth:
  assumes "i < length xs"
  shows "add_mset (xs ! i) (mset (take i xs @ drop (Suc i) xs)) = mset xs"
proof -
  have "mset xs = mset (take i xs @ xs ! i # drop (Suc i) xs)"
    using id_take_nth_drop [OF assms] by simp
  then show ?thesis by simp
qed

lemma mset_rangeMap: "mset (rangeMap ns xs) = mset xs"
proof (induction ns xs rule: rangeMap.induct)
  case (1 ns)
  then show ?case by simp
next
  case (2 x xs)
  then show ?case by simp
next
  case (3 n ns x xs)
  let ?i = "n mod length (x # xs)"
  have i: "?i < length (x # xs)" by simp
  have "mset (rangeMap (n # ns) (x # xs))
      = add_mset ((x # xs) ! ?i) (mset (take ?i (x # xs) @ drop (Suc ?i) (x # xs)))"
    using "3.IH" [of ?i] by (simp add: Let_def del: take_Cons' drop_Suc_Cons nth_Cons')
  also have "\<dots> = mset (x # xs)"
    by (rule mset_without_nth [OF i])
  finally show ?case .
qed

lemma rangeMap_any_order: "mset ys = mset xs \<Longrightarrow> \<exists>ns. rangeMap ns xs = ys"
proof (induction ys arbitrary: xs)
  case Nil
  then show ?case by simp
next
  case (Cons y ys)
  then have "y \<in> set xs"
    by (metis list.set_intros(1) mset_eq_setD)
  then obtain i where i: "i < length xs" "xs ! i = y"
    by (auto simp: in_set_conv_nth)
  let ?rest = "take i xs @ drop (Suc i) xs"
  have "add_mset y (mset ?rest) = add_mset y (mset ys)"
    using mset_without_nth [OF i(1)] i(2) Cons.prems by simp
  then have "mset ys = mset ?rest" by simp
  then obtain ns where ns: "rangeMap ns ?rest = ys"
    using Cons.IH by blast
  from i(1) obtain x xs' where xs: "xs = x # xs'" by (cases xs) auto
  have "rangeMap (i # ns) xs = y # ys"
    using i ns unfolding xs by (simp add: Let_def del: take_Cons' drop_Suc_Cons nth_Cons')
  then show ?case by blast
qed

lemma set_rangeMap: "set (rangeMap ns xs) = set xs"
  using mset_rangeMap [of ns xs] by (rule mset_eq_setD)

lemma distinct_keys_rangeMap:
  "distinct (map fst (rangeMap ns xs)) \<longleftrightarrow> distinct (map fst xs)"
proof -
  have "mset (map fst (rangeMap ns xs)) = mset (map fst xs)"
    by (simp add: mset_rangeMap)
  then show ?thesis by (rule mset_eq_imp_distinct_iff)
qed

lemma map_of_rangeMap:
  assumes "distinct (map fst xs)"
  shows "map_of (rangeMap ns xs) = map_of xs"
proof (rule map_of_inject_set [THEN iffD2])
  show "distinct (map fst (rangeMap ns xs))"
    using assms by (simp add: distinct_keys_rangeMap)
  show "distinct (map fst xs)" by (rule assms)
  show "set (rangeMap ns xs) = set xs" by (rule set_rangeMap)
qed

section \<open>Escaping and query strings: encoding, then parsing\<close>

lemma nibble_cases: "n < 16 \<Longrightarrow> n \<in> {0,1,2,3,4,5,6,7,8,9,10,11,12,13,14,15::nat}"
  by simp arith

lemma upperhex_ishex: "n < 16 \<Longrightarrow> ishex (upperhex n)"
  by (drule nibble_cases) (auto simp: upperhex_def ishex_def byte_def)

lemma unhex_upperhex: "n < 16 \<Longrightarrow> unhex (upperhex n) = n"
  by (drule nibble_cases) (auto simp: upperhex_def unhex_def byte_def)

lemma upperhex_isAlnum: "n < 16 \<Longrightarrow> isAlnum (upperhex n)"
  by (drule nibble_cases) (auto simp: upperhex_def isAlnum_def byte_def)

lemma byte_lt: "byte c < 256"
  by (simp add: byte_def)

lemma char_of_byte [simp]: "char_of (byte c) = c"
  by (simp add: byte_def)

lemma escapeByte_chars: "x \<in> set (escapeByte c) \<Longrightarrow> queryChar x"
proof -
  have d: "byte c div 16 < 16" using byte_lt [of c] by simp
  have m: "byte c mod 16 < 16" by simp
  assume "x \<in> set (escapeByte c)"
  then show ?thesis
    using upperhex_isAlnum [OF d] upperhex_isAlnum [OF m]
    by (auto simp: escapeByte_def queryChar_def shouldEscape_def split: if_splits)
qed

lemma QueryEscape_chars: "x \<in> set (QueryEscape s) \<Longrightarrow> queryChar x"
  by (auto simp: QueryEscape_def dest: escapeByte_chars)

lemma queryChar_not_sep:
  "queryChar x \<Longrightarrow> x \<noteq> CHR ''&'' \<and> x \<noteq> CHR ''='' \<and> x \<noteq> CHR '';'' \<and> x \<noteq> CHR ''#'' \<and> x \<noteq> CHR ''?''"
  by (auto simp: queryChar_def isAlnum_def byte_def)

lemma QueryUnescape_escapeByte:
  "QueryUnescape (escapeByte c @ s) = map_option ((#) c) (QueryUnescape s)"
proof -
  have d: "byte c div 16 < 16" using byte_lt [of c] by simp
  have m: "byte c mod 16 < 16" by simp
  consider (sp) "c = CHR '' ''" | (esc) "c \<noteq> CHR '' ''" "shouldEscape c"
    | (keep) "c \<noteq> CHR '' ''" "\<not> shouldEscape c" by blast
  then show ?thesis
  proof cases
    case sp
    then show ?thesis by (simp add: escapeByte_def)
  next
    case esc
    then show ?thesis
      by (simp add: escapeByte_def upperhex_ishex unhex_upperhex d m)
  next
    case keep
    then have "c \<noteq> CHR ''%''" "c \<noteq> CHR ''+''"
      by (auto simp: shouldEscape_def isAlnum_def byte_def)
    with keep show ?thesis by (simp add: escapeByte_def)
  qed
qed

lemma QueryUnescape_append:
  "QueryUnescape (QueryEscape s @ t) = map_option ((@) s) (QueryUnescape t)"
  by (induction s)
    (simp_all add: QueryEscape_def QueryUnescape_escapeByte option.map_comp comp_def option.map_ident)

lemma QueryUnescape_QueryEscape: "QueryUnescape (QueryEscape s) = Some s"
  using QueryUnescape_append [of s "[]"] by simp

lemma strings_Cut_found:
  "sep \<notin> set a \<Longrightarrow> strings_Cut (a @ sep # b) sep = (a, b, True)"
  by (induction a) (auto simp: strings_Cut_def)

lemma strings_Cut_missing:
  "sep \<notin> set a \<Longrightarrow> strings_Cut a sep = (a, [], False)"
  by (induction a) (auto simp: strings_Cut_def)

lemma pair_chars: "x \<in> set (queryPair kv) \<Longrightarrow> x \<noteq> CHR ''&'' \<and> x \<noteq> CHR '';'' \<and> x \<noteq> CHR ''#'' \<and> x \<noteq> CHR ''?''"
  using queryChar_not_sep QueryEscape_chars by (auto simp: queryPair_def)

lemma pair_nonempty: "queryPair kv \<noteq> []"
  by (simp add: queryPair_def)

lemma Cut_pair: "strings_Cut (queryPair kv) CHR ''='' = (QueryEscape (fst kv), QueryEscape (snd kv), True)"
proof -
  have "CHR ''='' \<notin> set (QueryEscape (fst kv))"
    using queryChar_not_sep QueryEscape_chars by blast
  then show ?thesis
    using strings_Cut_found [of "CHR ''=''" "QueryEscape (fst kv)" "QueryEscape (snd kv)"]
    by (simp add: queryPair_def)
qed

lemma parseQuery_Nil: "parseQuery m [] err = (m, err)"
  by (subst parseQuery.simps) simp

lemma parseQuery_pair_last:
  "parseQuery m (queryPair kv) err = (Values_Add m (fst kv) (snd kv), err)"
proof -
  have "CHR ''&'' \<notin> set (queryPair kv)"
    using pair_chars by blast
  then have cut: "strings_Cut (queryPair kv) CHR ''&'' = (queryPair kv, [], False)"
    by (rule strings_Cut_missing)
  have semi: "CHR '';'' \<notin> set (queryPair kv)"
    using pair_chars by blast
  show ?thesis
    by (subst parseQuery.simps)
      (simp add: cut semi pair_nonempty Cut_pair QueryUnescape_QueryEscape parseQuery_Nil)
qed

lemma parseQuery_pair_more:
  "parseQuery m (queryPair kv @ CHR ''&'' # rest) err = parseQuery (Values_Add m (fst kv) (snd kv)) rest err"
proof -
  have "CHR ''&'' \<notin> set (queryPair kv)"
    using pair_chars by blast
  then have cut: "strings_Cut (queryPair kv @ CHR ''&'' # rest) CHR ''&'' = (queryPair kv, rest, True)"
    by (rule strings_Cut_found)
  have semi: "CHR '';'' \<notin> set (queryPair kv)"
    using pair_chars by blast
  show ?thesis
    by (subst parseQuery.simps)
      (simp add: cut semi pair_nonempty Cut_pair QueryUnescape_QueryEscape)
qed

lemma parseQuery_joinPairs:
  "parseQuery m (joinPairs kvs) err = (foldl (\<lambda>m kv. Values_Add m (fst kv) (snd kv)) m kvs, err)"
proof (induction kvs arbitrary: m rule: joinPairs.induct)
  case 1
  then show ?case by (simp add: parseQuery_Nil)
next
  case (2 kv)
  then show ?case by (simp add: parseQuery_pair_last)
next
  case (3 kv v va)
  then show ?case by (simp add: parseQuery_pair_more)
qed


lemma vals_Values_Add: "vals (Values_Add m k x) k' = (if k' = k then vals m k @ [x] else vals m k')"
  by (simp add: vals_def Values_Add_def update_conv')

lemma vals_Values_Set: "vals (Values_Set m k x) k' = (if k' = k then [x] else vals m k')"
  by (simp add: vals_def Values_Set_def update_conv')

lemma vals_foldl_Add:
  "vals (foldl (\<lambda>m kv. Values_Add m (fst kv) (snd kv)) m kvs) k
     = vals m k @ map snd (filter (\<lambda>kv. fst kv = k) kvs)"
  by (induction kvs arbitrary: m) (simp_all add: vals_Values_Add)

lemma joinPairs_Cons:
  "joinPairs (kv # kvs) = queryPair kv @ (if kvs = [] then [] else CHR ''&'' # joinPairs kvs)"
  by (cases kvs) simp_all

lemma writePair_pair:
  "writePair k buf x = (if buf \<noteq> [] then buf @ ''&'' else buf) @ queryPair (k, x)"
  by (simp add: writePair_def queryPair_def)

lemma foldl_writePair:
  "foldl (writePair k) buf xs = (if buf = [] then joinPairs (map (Pair k) xs)
      else if xs = [] then buf else buf @ ''&'' @ joinPairs (map (Pair k) xs))"
proof (induction xs arbitrary: buf)
  case Nil
  then show ?case by simp
next
  case (Cons x xs)
  have ne: "writePair k buf x \<noteq> []" by (simp add: writePair_def)
  show ?case
    unfolding foldl_Cons Cons.IH [of "writePair k buf x"]
    using ne by (simp add: joinPairs_Cons writePair_pair del: joinPairs.simps)
qed

lemma joinPairs_append:
  "joinPairs (xs @ ys) = (if xs = [] then joinPairs ys else if ys = [] then joinPairs xs
     else joinPairs xs @ ''&'' @ joinPairs ys)"
  by (induction xs) (simp_all add: joinPairs_Cons del: joinPairs.simps(2,3))

lemma joinPairs_Nil_iff: "joinPairs xs = [] \<longleftrightarrow> xs = []"
  by (cases xs) (simp_all add: joinPairs_Cons pair_nonempty del: joinPairs.simps(2,3))

lemma foldl_keys:
  "foldl (\<lambda>buf k. foldl (writePair k) buf (vals v k)) (joinPairs done) ks
     = joinPairs (done @ concat (map (\<lambda>k. map (Pair k) (vals v k)) ks))"
proof (induction ks arbitrary: "done")
  case Nil
  then show ?case by simp
next
  case (Cons k ks)
  have "foldl (writePair k) (joinPairs done) (vals v k) = joinPairs (done @ map (Pair k) (vals v k))"
    by (simp add: foldl_writePair joinPairs_append joinPairs_Nil_iff)
  then show ?case using Cons.IH [of "done @ map (Pair k) (vals v k)"] by simp
qed

lemma Values_Encode_joinPairs: "Values_Encode v = joinPairs (pairsOf v)"
  using foldl_keys [of v "[]" "sort (map fst v)"] by (simp add: Values_Encode_def pairsOf_def)


lemma map_of_Values_Add:
  "map_of (Values_Add m k x) k' = (if k' = k then Some (vals m k @ [x]) else map_of m k')"
  by (simp add: Values_Add_def update_conv')

lemma map_of_foldl_Add:
  "map_of (foldl (\<lambda>m kv. Values_Add m (fst kv) (snd kv)) m kvs) k
     = (if filter (\<lambda>kv. fst kv = k) kvs = [] then map_of m k
        else Some (vals m k @ map snd (filter (\<lambda>kv. fst kv = k) kvs)))"
proof (induction kvs arbitrary: m)
  case Nil
  then show ?case by simp
next
  case (Cons kv kvs)
  show ?case
    by (simp add: Cons.IH map_of_Values_Add vals_Values_Add)
qed

lemma distinct_Values_Add: "distinct (map fst m) \<Longrightarrow> distinct (map fst (Values_Add m k x))"
  by (simp add: Values_Add_def distinct_update)

lemma distinct_Values_Set: "distinct (map fst m) \<Longrightarrow> distinct (map fst (Values_Set m k x))"
  by (simp add: Values_Set_def distinct_update)

lemma distinct_foldl_Add:
  "distinct (map fst m) \<Longrightarrow> distinct (map fst (foldl (\<lambda>m kv. Values_Add m (fst kv) (snd kv)) m kvs))"
  by (induction kvs arbitrary: m) (simp_all add: distinct_Values_Add)

lemma concat_single_key:
  "distinct ks \<Longrightarrow> concat (map (\<lambda>k'. if k' = k then xs else []) ks) = (if k \<in> set ks then xs else [])"
  by (induction ks) auto

lemma filter_pairsOf:
  assumes "distinct (map fst v)"
  shows "map snd (filter (\<lambda>kv. fst kv = k) (pairsOf v)) = vals v k"
proof -
  let ?ks = "sort (map fst v)"
  have d: "distinct ?ks" using assms by simp
  have "map snd (filter (\<lambda>kv. fst kv = k) (pairsOf v))
      = concat (map (\<lambda>k'. if k' = k then vals v k else []) ?ks)"
    unfolding pairsOf_def
    by (induction ?ks) (auto simp: filter_concat comp_def map_concat filter_map intro!: arg_cong [of _ _ concat])
  also have "\<dots> = (if k \<in> set ?ks then vals v k else [])"
    by (rule concat_single_key [OF d])
  also have "\<dots> = vals v k"
    by (auto simp: vals_def map_of_eq_None_iff [symmetric] split: option.splits)
  finally show ?thesis .
qed

lemma ParseQuery_Values_Encode:
  "ParseQuery (Values_Encode v) = Inr (foldl (\<lambda>m kv. Values_Add m (fst kv) (snd kv)) [] (pairsOf v))"
  by (simp add: ParseQuery_def Values_Encode_joinPairs parseQuery_joinPairs)

lemma ParseQuery_Encode_roundtrip:
  assumes "distinct (map fst v)" and "nonemptyValues v"
  obtains q where "ParseQuery (Values_Encode v) = Inr q" and "map_of q = map_of v"
    and "distinct (map fst q)"
proof
  let ?q = "foldl (\<lambda>m kv. Values_Add m (fst kv) (snd kv)) [] (pairsOf v)"
  show "ParseQuery (Values_Encode v) = Inr ?q" by (rule ParseQuery_Values_Encode)
  show "distinct (map fst ?q)" by (simp add: distinct_foldl_Add)
  show "map_of ?q = map_of v"
  proof
    fix k
    have f: "map snd (filter (\<lambda>kv. fst kv = k) (pairsOf v)) = vals v k"
      by (rule filter_pairsOf [OF assms(1)])
    show "map_of ?q k = map_of v k"
    proof (cases "map_of v k")
      case None
      then have "vals v k = []" by (simp add: vals_def)
      with f None show ?thesis by (simp add: map_of_foldl_Add)
    next
      case (Some xs)
      then have "(k, xs) \<in> set v" by (rule map_of_SomeD)
      then have "xs \<noteq> []" using assms(2) by (force simp: nonemptyValues_def)
      moreover have "vals v k = xs" using Some by (simp add: vals_def)
      ultimately show ?thesis using f Some
        by (auto simp: map_of_foldl_Add vals_def)
    qed
  qed
qed

section \<open>Rebuilding the URL\<close>

lemma strings_Replace_query:
  "CHR ''?'' \<notin> set h \<Longrightarrow> strings_Replace (h @ CHR ''?'' # rq) (CHR ''?'' # rq) [] = h"
proof (induction h)
  case Nil
  show ?case
    by (subst strings_Replace.simps, simp, subst strings_Replace.simps, simp)
next
  case (Cons c h)
  then have "\<not> prefix (CHR ''?'' # rq) ((c # h) @ CHR ''?'' # rq)" by auto
  then show ?case
    using Cons by (subst strings_Replace.simps) simp
qed

lemma strings_Replace_no_query:
  "CHR ''?'' \<notin> set h \<Longrightarrow> strings_Replace h (CHR ''?'' # rq) [] = h"
proof (induction h)
  case Nil
  show ?case by (subst strings_Replace.simps) simp
next
  case (Cons c h)
  then have "\<not> prefix (CHR ''?'' # rq) (c # h)" by auto
  then show ?case
    using Cons by (subst strings_Replace.simps) simp
qed

lemma mergeParams_no_fragment:
  assumes "Fragment u = None" and "CHR ''?'' \<notin> set (Head u)"
  shows "mergeParams u q = Head u @ ''?'' @ Values_Encode q"
  using assms
  by (simp add: mergeParams_def URL_String_def strings_Replace_query strings_Replace_no_query)

lemma parseQuery_invariant:
  assumes step: "\<And>m k x. P m \<Longrightarrow> P (Values_Add m k x)"
  shows "P m \<Longrightarrow> P (fst (parseQuery m query err))"
proof (induction "length query" arbitrary: m query err rule: less_induct)
  case less
  show ?case
  proof (cases "query = []")
    case True
    then show ?thesis using less.prems by (subst parseQuery.simps) simp
  next
    case False
    obtain key rest found where c: "strings_Cut query CHR ''&'' = (key, rest, found)"
      by (cases "strings_Cut query CHR ''&''") auto
    have "length rest < length query"
      using strings_Cut_shorter [of key "(rest, found)" query "CHR ''&''" rest found] c False
      by simp
    then have IH: "\<And>m' e. P m' \<Longrightarrow> P (fst (parseQuery m' rest e))"
      using less.hyps by blast
    show ?thesis
      by (subst parseQuery.simps)
        (simp add: False c IH less.prems step split: prod.splits option.splits)
  qed
qed

lemma set_AList_update: "set (AList.update k v al) \<subseteq> insert (k, v) (set al)"
  by (induction al) auto

lemma nonemptyValues_Add: "nonemptyValues m \<Longrightarrow> nonemptyValues (Values_Add m k x)"
  using set_AList_update [of k "vals m k @ [x]" m]
  by (auto simp: nonemptyValues_def Values_Add_def)

lemma nonemptyValues_Set: "nonemptyValues m \<Longrightarrow> nonemptyValues (Values_Set m k x)"
  using set_AList_update [of k "[x]" m]
  by (auto simp: nonemptyValues_def Values_Set_def)

lemma ParseQuery_distinct: "ParseQuery s = Inr q \<Longrightarrow> distinct (map fst q)"
  using parseQuery_invariant [of "\<lambda>m. distinct (map fst m)" "[]" s False]
  by (auto simp: ParseQuery_def distinct_Values_Add split: prod.splits bool.splits)

lemma ParseQuery_nonempty: "ParseQuery s = Inr q \<Longrightarrow> nonemptyValues q"
  using parseQuery_invariant [of nonemptyValues "[]" s False]
  by (auto simp: ParseQuery_def nonemptyValues_Add split: prod.splits bool.splits)
    (simp add: nonemptyValues_def)


lemma map_of_Values_Set:
  "map_of (Values_Set m k x) k' = (if k' = k then Some [x] else map_of m k')"
  by (simp add: Values_Set_def update_conv')

lemma map_of_foldl_Set:
  "distinct (map fst P) \<Longrightarrow>
   map_of (foldl (\<lambda>q (k, v). Values_Set q k v) q P) k
     = (case map_of P k of Some v \<Rightarrow> Some [v] | None \<Rightarrow> map_of q k)"
proof (induction P arbitrary: q)
  case Nil
  then show ?case by simp
next
  case (Cons kv P)
  obtain k0 v0 where kv: "kv = (k0, v0)" by (cases kv)
  from Cons.prems kv have "map_of P k0 = None"
    by (simp add: map_of_eq_None_iff)
  with Cons kv show ?case
    by (simp add: map_of_Values_Set split: option.splits)
qed

lemma foldl_Set_invariants:
  "distinct (map fst q) \<Longrightarrow> nonemptyValues q \<Longrightarrow>
   distinct (map fst (foldl (\<lambda>q (k, v). Values_Set q k v) q P))
   \<and> nonemptyValues (foldl (\<lambda>q (k, v). Values_Set q k v) q P)"
  by (induction P arbitrary: q) (auto simp: distinct_Values_Set nonemptyValues_Set)

lemma vals_addAll:
  "vals (addAll q kvs) k = (if k = fst kvs then vals q k @ snd kvs else vals q k)"
proof -
  have "vals (foldl (\<lambda>q v. Values_Add q k0 v) q vs) k
          = (if k = k0 then vals q k @ vs else vals q k)" for k0 vs
    by (induction vs arbitrary: q) (simp_all add: vals_Values_Add)
  then show ?thesis by (simp add: addAll_def)
qed

lemma vals_foldl_addAll:
  "vals (foldl addAll q ps) k = vals q k @ concat (map snd (filter (\<lambda>p. fst p = k) ps))"
  by (induction ps arbitrary: q) (simp_all add: vals_addAll)

lemma concat_values_distinct:
  "distinct (map fst ps) \<Longrightarrow> concat (map snd (filter (\<lambda>p. fst p = k) ps)) = vals ps k"
proof (induction ps)
  case Nil
  then show ?case by (simp add: vals_def)
next
  case (Cons p ps)
  obtain k0 vs where p: "p = (k0, vs)" by (cases p)
  show ?case
  proof (cases "k0 = k")
    case True
    with Cons.prems p have "filter (\<lambda>p. fst p = k) ps = []"
      by (auto simp: filter_empty_conv)
    with True p show ?thesis by (simp add: vals_def)
  next
    case False
    with Cons p show ?thesis by (simp add: vals_def)
  qed
qed

lemma distinct_addAll: "distinct (map fst q) \<Longrightarrow> distinct (map fst (addAll q kvs))"
proof -
  have "distinct (map fst q) \<Longrightarrow> distinct (map fst (foldl (\<lambda>q v. Values_Add q k0 v) q vs))" for k0 vs
    by (induction vs arbitrary: q) (simp_all add: distinct_Values_Add)
  then show "distinct (map fst q) \<Longrightarrow> distinct (map fst (addAll q kvs))"
    by (simp add: addAll_def)
qed

lemma distinct_foldl_addAll:
  "distinct (map fst q) \<Longrightarrow> distinct (map fst (foldl addAll q ps))"
  by (induction ps arbitrary: q) (simp_all add: distinct_addAll)

text \<open>Parsing the rebuilt URL again: its raw query is the encoded query.\<close>

lemma Values_Encode_chars:
  "x \<in> set (Values_Encode q) \<Longrightarrow> x \<noteq> CHR ''#'' \<and> x \<noteq> CHR ''?''"
proof -
  have "x \<in> set (joinPairs kvs) \<Longrightarrow> x \<noteq> CHR ''#'' \<and> x \<noteq> CHR ''?''" for kvs
    by (induction kvs rule: joinPairs.induct) (auto dest: pair_chars)
  then show "x \<in> set (Values_Encode q) \<Longrightarrow> x \<noteq> CHR ''#'' \<and> x \<noteq> CHR ''?''"
    by (simp add: Values_Encode_joinPairs)
qed

lemma splitQuery_rebuilt:
  assumes "CHR ''?'' \<notin> set h" and "CHR ''?'' \<notin> set e"
  shows "\<exists>force. splitQuery (h @ CHR ''?'' # e) = (h, e, force)"
proof (cases "suffix ''?'' (h @ CHR ''?'' # e) \<and> count_list (h @ CHR ''?'' # e) CHR ''?'' = 1")
  case True
  have "e = []"
  proof (rule ccontr)
    assume "e \<noteq> []"
    then have "last (h @ CHR ''?'' # e) = last e" by simp
    moreover from True obtain zs where "h @ CHR ''?'' # e = zs @ ''?''"
      by (auto simp: suffix_def)
    then have "last (h @ CHR ''?'' # e) = CHR ''?''"
      by (metis last_snoc)
    ultimately show False using assms(2) \<open>e \<noteq> []\<close> last_in_set by metis
  qed
  with True have "splitQuery (h @ CHR ''?'' # e) = (h, e, True)"
    by (simp add: splitQuery_def butlast_append)
  then show ?thesis by blast
next
  case False
  then show ?thesis
    using strings_Cut_found [OF assms(1), of e]
    by (auto simp: splitQuery_def simp del: append.simps)
qed

lemma url_Parse_rebuilt:
  assumes "CHR ''?'' \<notin> set h" and "CHR ''#'' \<notin> set h"
    and "url_Parse lib (h @ ''?'' @ Values_Encode q) = Inr u'"
  shows "RawQuery u' = Values_Encode q"
proof -
  let ?e = "Values_Encode q"
  have "CHR ''#'' \<notin> set (h @ CHR ''?'' # ?e)"
    using assms(2) Values_Encode_chars by auto
  then have cut: "strings_Cut (h @ CHR ''?'' # ?e) CHR ''#'' = (h @ CHR ''?'' # ?e, [], False)"
    by (rule strings_Cut_missing)
  have "CHR ''?'' \<notin> set ?e" using Values_Encode_chars by blast
  then obtain force where sp: "splitQuery (h @ CHR ''?'' # ?e) = (h, ?e, force)"
    using splitQuery_rebuilt [OF assms(1)] by blast
  from assms(3) show ?thesis
    by (auto simp: url_Parse_def cut sp split: if_splits option.splits)
qed

section \<open>Base64: encoding, then decoding\<close>

lemma takeWhile_index:
  "distinct xs \<Longrightarrow> n < length xs \<Longrightarrow> length (takeWhile (\<lambda>x. x \<noteq> xs ! n) xs) = n"
proof (induction xs arbitrary: n)
  case Nil
  then show ?case by simp
next
  case (Cons x xs)
  then show ?case by (cases n) auto
qed

lemma length_encodeStd: "length encodeStd = 64"
  by (simp add: encodeStd_def)

lemma distinct_encodeStd: "distinct encodeStd"
  by (simp add: encodeStd_def)

lemma b64val_b64char: "n < 64 \<Longrightarrow> b64val (b64char n) = Some n"
  using takeWhile_index [OF distinct_encodeStd, of n]
  by (simp add: b64val_def b64char_def length_encodeStd)

lemma b64char_plain:
  "n < 64 \<Longrightarrow> b64char n \<noteq> CHR ''='' \<and> b64char n \<noteq> CHR 0x0A \<and> b64char n \<noteq> CHR 0x0D"
proof -
  assume "n < 64"
  then have "b64char n \<in> set encodeStd"
    using nth_mem [of n encodeStd] by (simp add: b64char_def encodeStd_def)
  moreover have "CHR ''='' \<notin> set encodeStd" "CHR 0x0A \<notin> set encodeStd" "CHR 0x0D \<notin> set encodeStd"
    by (simp_all add: encodeStd_def)
  ultimately show ?thesis by metis
qed

lemma sextets:
  fixes a b c :: nat
  assumes "a < 256" "b < 256" "c < 256"
  shows "a div 4 < 64" "a mod 4 * 16 + b div 16 < 64" "b mod 16 * 4 + c div 64 < 64" "c mod 64 < 64"
    "a mod 4 * 16 < 64" "b mod 16 * 4 < 64"
  using assms by auto

lemma hi_lo: "(h * n + l) div n = h \<and> (h * n + l) mod n = l" if "l < n" for h l n :: nat
  using that by simp

lemma octets:
  fixes a b c :: nat
  assumes "a < 256" "b < 256" "c < 256"
  shows "a div 4 * 4 + (a mod 4 * 16 + b div 16) div 16 = a"
    and "(a mod 4 * 16 + b div 16) mod 16 * 16 + (b mod 16 * 4 + c div 64) div 4 = b"
    and "(b mod 16 * 4 + c div 64) mod 4 * 64 + c mod 64 = c"
    and "a div 4 * 4 + (a mod 4 * 16) div 16 = a"
    and "(a mod 4 * 16 + b div 16) mod 16 * 16 + (b mod 16 * 4) div 4 = b"
proof -
  have b: "b div 16 < 16" and c: "c div 64 < 4"
    using assms by simp_all
  show "a div 4 * 4 + (a mod 4 * 16 + b div 16) div 16 = a"
    using hi_lo [OF b, of "a mod 4"] by simp
  show "(a mod 4 * 16 + b div 16) mod 16 * 16 + (b mod 16 * 4 + c div 64) div 4 = b"
    using hi_lo [OF b, of "a mod 4"] hi_lo [OF c, of "b mod 16"] by simp
  show "(b mod 16 * 4 + c div 64) mod 4 * 64 + c mod 64 = c"
    using hi_lo [OF c, of "b mod 16"] by simp
  show "a div 4 * 4 + (a mod 4 * 16) div 16 = a"
    by simp
  show "(a mod 4 * 16 + b div 16) mod 16 * 16 + (b mod 16 * 4) div 4 = b"
    using hi_lo [OF b, of "a mod 4"] by simp
qed

lemma quantum3_encode:
  "quantum3 (b64char (byte a div 4)) (b64char (byte a mod 4 * 16 + byte b div 16))
     (b64char (byte b mod 16 * 4 + byte c div 64)) (b64char (byte c mod 64)) = Some [a, b, c]"
proof -
  have lt: "byte a < 256" "byte b < 256" "byte c < 256" by (simp_all add: byte_def)
  show ?thesis
    using sextets [OF lt] octets [OF lt]
    by (simp add: quantum3_def b64val_b64char)
qed

lemma quantum2_encode:
  "quantum2 (b64char (byte a div 4)) (b64char (byte a mod 4 * 16 + byte b div 16))
     (b64char (byte b mod 16 * 4)) = Some [a, b]"
proof -
  have lt: "byte a < 256" "byte b < 256" "byte b < 256" by (simp_all add: byte_def)
  show ?thesis
    using sextets [OF lt] octets [OF lt]
    by (simp add: quantum2_def b64val_b64char)
qed

lemma quantum1_encode:
  "quantum1 (b64char (byte a div 4)) (b64char (byte a mod 4 * 16)) = Some [a]"
proof -
  have lt: "byte a < 256" "byte a < 256" "byte a < 256" by (simp_all add: byte_def)
  show ?thesis
    using sextets [OF lt] octets [OF lt]
    by (simp add: quantum1_def b64val_b64char)
qed

lemma decodeQuanta_full:
  "d \<noteq> CHR ''='' \<Longrightarrow>
   decodeQuanta (a # b # c # d # s) =
     (case quantum3 a b c d of None \<Rightarrow> None | Some bs \<Rightarrow> map_option ((@) bs) (decodeQuanta s))"
  by (cases s) (auto split: option.splits)

lemma decodeQuanta_encode: "decodeQuanta (base64_EncodeToString s) = Some s"
proof (induction s rule: base64_EncodeToString.induct)
  case 1
  then show ?case by simp
next
  case (2 a)
  then show ?case by (simp add: quantum1_encode)
next
  case (3 a b)
  have "byte b mod 16 * 4 < 64" by simp
  then have "b64char (byte b mod 16 * 4) \<noteq> CHR ''=''" using b64char_plain by blast
  then show ?case by (simp add: quantum2_encode)
next
  case (4 a b c s)
  have "byte c mod 64 < 64" by simp
  then have "b64char (byte c mod 64) \<noteq> CHR ''=''" using b64char_plain by blast
  then show ?case
    using 4 by (simp add: decodeQuanta_full quantum3_encode del: decodeQuanta.simps)
qed

lemma encode_no_linebreak:
  "x \<in> set (base64_EncodeToString s) \<Longrightarrow> x \<noteq> CHR 0x0A \<and> x \<noteq> CHR 0x0D"
proof (induction s rule: base64_EncodeToString.induct)
  case 1
  then show ?case by simp
next
  case (2 a)
  have lt: "byte a < 256" by (simp add: byte_def)
  from 2 show ?case
    using sextets [OF lt lt lt] b64char_plain by auto
next
  case (3 a b)
  have lt: "byte a < 256" "byte b < 256" by (simp_all add: byte_def)
  from 3 show ?case
    using sextets [OF lt lt(2)] b64char_plain by auto
next
  case (4 a b c s)
  have lt: "byte a < 256" "byte b < 256" "byte c < 256" by (simp_all add: byte_def)
  from 4 show ?case
    using sextets [OF lt] b64char_plain by auto
qed

lemma base64_roundtrip: "base64_DecodeString (base64_EncodeToString s) = Some s"
proof -
  have "filter (\<lambda>c. c \<noteq> CHR 0x0A \<and> c \<noteq> CHR 0x0D) (base64_EncodeToString s) = base64_EncodeToString s"
    using encode_no_linebreak by (simp add: filter_id_conv)
  then show ?thesis by (simp add: base64_DecodeString_def decodeQuanta_encode)
qed

lemma parseBasicAuth_encode:
  assumes "CHR '':'' \<notin> set username"
  shows "parseBasicAuth (''Basic '' @ base64_EncodeToString (username @ '':'' @ password))
           = Some (username, password)"
proof -
  have "map lowerByte ''Basic '' = ''basic ''"
    by code_simp
  then show ?thesis
    using strings_Cut_found [OF assms, of password]
    by (simp add: parseBasicAuth_def base64_roundtrip)
qed

section \<open>The assembled request\<close>

lemma prepareFilesBody_contentType:
  "prepareFilesBody lib files data st = (Ok (body, ct), st')
     \<Longrightarrow> ct = FormDataContentType (randomBoundary lib)"
  by (auto simp: prepareFilesBody_def multipart_Close_def
      split: prod.splits outcome.splits sum.splits)

lemma prepareBody_headers:
  assumes "prepareBody lib args w = (Ok body, args', w')"
  shows "Headers args' =
           (case strategyContentType lib (selectStrategy args) of
              None \<Rightarrow> Headers args
            | Some (k, v) \<Rightarrow> map_option (AList.update k v) (Headers args))"
  using assms
  by (auto simp: prepareBody_def setHeader_def selectStrategy_def returned_def
      split: option.splits prod.splits outcome.splits sum.splits
      dest: prepareFilesBody_contentType)

lemma prepareBody_frame:
  "prepareBody lib args w = (r, args', w') \<Longrightarrow> args' = args\<lparr>Headers := Headers args'\<rparr>"
  by (auto simp: prepareBody_def setHeader_def split: option.splits prod.splits outcome.splits)

lemma prepareBody_Auth:
  assumes "prepareBody lib args w = (r, args', w')"
  shows "Auth args' = Auth args"
proof -
  have "Auth (args\<lparr>Headers := Headers args'\<rparr>) = Auth args" by simp
  then show ?thesis using prepareBody_frame [OF assms] by simp
qed

lemma prepareRequest_Ok:
  assumes "prepareRequest lib method reqUrl args w = (Ok req, args', w'')"
  shows "\<exists>reqUrl' body w' r0 r1.
    prepareRequest_url lib reqUrl args = Inr reqUrl'
    \<and> prepareBody lib args w = (Ok body, args', w')
    \<and> http_NewRequest lib method reqUrl' body = Inr r0
    \<and> prepareRequest_auth (Auth args) (Inr r0) = Ok (Inr r1)
    \<and> req = r1\<lparr>Header :=
          foldl (\<lambda>h (k, v). Header_Set h k v) (Header r1)
            (rangeMap (headerOrder lib) (entries (Headers args')))\<rparr>
    \<and> ReqBody req = body"
proof -
  from assms obtain reqUrl' where u: "prepareRequest_url lib reqUrl args = Inr reqUrl'"
    by (auto simp: prepareRequest_def split: sum.splits)
  obtain rb ab wb where b: "prepareBody lib args w = (rb, ab, wb)"
    by (cases "prepareBody lib args w") auto
  from assms u b obtain body where rb: "rb = Ok body" and ab: "ab = args'"
    by (auto simp: prepareRequest_def split: outcome.splits prod.splits sum.splits)
  have au: "Auth args' = Auth args"
    using b ab prepareBody_Auth by blast
  from assms u b rb ab obtain q1 where
    a: "prepareRequest_auth (Auth args') (http_NewRequest lib method reqUrl' body) = Ok q1"
    by (auto simp: prepareRequest_def split: outcome.splits prod.splits sum.splits)
  from assms u b rb ab a obtain q2 where
    h: "prepareRequest_headers (headerOrder lib) (entries (Headers args')) q1 = Ok q2"
    by (auto simp: prepareRequest_def split: outcome.splits prod.splits sum.splits)
  from assms u b rb ab a h have q2: "q2 = Inr req"
    by (auto simp: prepareRequest_def split: outcome.splits prod.splits sum.splits)
  from h q2 obtain r1 where q1: "q1 = Inr r1"
    and req: "req = r1\<lparr>Header :=
          foldl (\<lambda>h (k, v). Header_Set h k v) (Header r1)
            (rangeMap (headerOrder lib) (entries (Headers args')))\<rparr>"
    by (auto simp: prepareRequest_headers_def split: sum.splits if_splits)
  from a q1 obtain r0 where n: "http_NewRequest lib method reqUrl' body = Inr r0"
    by (auto simp: prepareRequest_auth_def split: option.splits sum.splits if_splits)
  from n have "ReqBody r0 = body"
    by (auto simp: http_NewRequest_def Let_def split: if_splits sum.splits)
  moreover from a q1 au have "ReqBody r1 = ReqBody r0"
    by (auto simp: prepareRequest_auth_def n SetBasicAuth_def split: option.splits if_splits)
  ultimately have "ReqBody req = body"
    using req by simp
  with u b rb ab n a q1 req au show ?thesis by auto
qed

lemma vals_Header_Set:
  "vals (Header_Set h k v) K = (if K = CanonicalMIMEHeaderKey k then [v] else vals h K)"
  by (simp add: Header_Set_def vals_def update_conv')

lemma vals_apply_headers_other:
  "\<forall>k \<in> fst ` set hs. CanonicalMIMEHeaderKey k \<noteq> K \<Longrightarrow>
   vals (foldl (\<lambda>h (k, v). Header_Set h k v) h hs) K = vals h K"
  by (induction hs arbitrary: h) (auto simp: vals_Header_Set)

lemma vals_apply_headers_unique:
  assumes "distinct (map fst hs)" and "map_of hs k0 = Some v0"
    and "\<forall>k \<in> fst ` set hs. k \<noteq> k0 \<longrightarrow> CanonicalMIMEHeaderKey k \<noteq> CanonicalMIMEHeaderKey k0"
  shows "vals (foldl (\<lambda>h (k, v). Header_Set h k v) h hs) (CanonicalMIMEHeaderKey k0) = [v0]"
  using assms
proof (induction hs arbitrary: h)
  case Nil
  then show ?case by simp
next
  case (Cons kv hs)
  obtain k v where kv: "kv = (k, v)" by (cases kv)
  show ?case
  proof (cases "k = k0")
    case True
    with Cons.prems kv have v: "v = v0" and rest: "\<forall>k \<in> fst ` set hs. CanonicalMIMEHeaderKey k \<noteq> CanonicalMIMEHeaderKey k0"
      by auto
    show ?thesis
      using kv True v vals_apply_headers_other [OF rest] by (simp add: vals_Header_Set)
  next
    case False
    with Cons.prems kv have "map_of hs k0 = Some v0" by simp
    with Cons kv show ?thesis by simp
  qed
qed

lemma vals_apply_headers_other_any_order:
  assumes "\<forall>k \<in> fst ` set hs. CanonicalMIMEHeaderKey k \<noteq> K"
  shows "vals (foldl (\<lambda>h (k, v). Header_Set h k v) h (rangeMap ns hs)) K = vals h K"
  by (rule vals_apply_headers_other) (simp add: set_rangeMap assms)

lemma vals_apply_headers_unique_any_order:
  assumes "distinct (map fst hs)" and "map_of hs k0 = Some v0"
    and "\<forall>k \<in> fst ` set hs. k \<noteq> k0 \<longrightarrow> CanonicalMIMEHeaderKey k \<noteq> CanonicalMIMEHeaderKey k0"
  shows "vals (foldl (\<lambda>h (k, v). Header_Set h k v) h (rangeMap ns hs))
           (CanonicalMIMEHeaderKey k0) = [v0]"
proof (rule vals_apply_headers_unique)
  show "distinct (map fst (rangeMap ns hs))"
    using assms(1) by (simp add: distinct_keys_rangeMap)
  show "map_of (rangeMap ns hs) k0 = Some v0"
    using assms(1,2) by (simp add: map_of_rangeMap)
  show "\<forall>k \<in> fst ` set (rangeMap ns hs).
          k \<noteq> k0 \<longrightarrow> CanonicalMIMEHeaderKey k \<noteq> CanonicalMIMEHeaderKey k0"
    using assms(3) by (simp add: set_rangeMap)
qed

lemma filter_unique_key:
  assumes "distinct (map fst xs)" and "map_of xs k0 = Some v0"
    and "\<forall>k \<in> fst ` set xs. P k \<longleftrightarrow> k = k0"
  shows "filter (\<lambda>kv. P (fst kv)) xs = [(k0, v0)]"
  using assms
proof (induction xs)
  case Nil
  then show ?case by simp
next
  case (Cons kv xs)
  obtain k v where kv: "kv = (k, v)" by (cases kv)
  show ?case
  proof (cases "k = k0")
    case True
    with Cons.prems kv have "v = v0" and "\<forall>y \<in> set xs. \<not> P (fst y)"
      by (auto simp: image_iff)
    then have "filter (\<lambda>kv. P (fst kv)) xs = []"
      by (simp add: filter_empty_conv)
    with True kv \<open>v = v0\<close> Cons.prems show ?thesis by simp
  next
    case False
    with Cons.prems kv have "map_of xs k0 = Some v0" and "\<not> P k" by auto
    with Cons kv show ?thesis by simp
  qed
qed

lemma canon_Content_Type: "CanonicalMIMEHeaderKey ''Content-Type'' = ''Content-Type''"
  by code_simp

lemma canon_Authorization: "CanonicalMIMEHeaderKey ''Authorization'' = ''Authorization''"
  by code_simp

lemma canon_Content_type: "CanonicalMIMEHeaderKey ''Content-type'' = ''Content-Type''"
  by code_simp

section \<open>C1: one body strategy, first match wins\<close>

lemma prepareBody_only_winner:
  assumes "prepareBody lib args w = (r, args', w')"
  shows "prepareBody lib (onlyStrategy (selectStrategy args) args) w
           = (r, onlyStrategy (selectStrategy args) args', w')
    \<and> args' = args\<lparr>Headers := Headers args'\<rparr>
    \<and> (selectStrategy args = ExplicitBody \<longrightarrow> r = Ok (Body args) \<and> args' = args)
    \<and> (selectStrategy args = JsonBody \<longrightarrow>
         (\<exists>j. Json args = Some j \<and> w' = w
            \<and> r = (if Headers args = None then Panic NilMapAssignment
                     else returned (prepareJsonBody j))))
    \<and> (selectStrategy args = MultipartFiles \<longrightarrow>
         (\<exists>fs res st. Files args = Some fs
            \<and> prepareFilesBody lib fs (Data args) (streams w) = (res, st)
            \<and> w' = w\<lparr>streams := st\<rparr>
            \<and> r = (case res of
                       Panic p \<Rightarrow> Panic p
                     | Err err \<Rightarrow>
                         if Headers args = None then Panic NilMapAssignment else Err err
                     | Ok (body, contentType) \<Rightarrow>
                         if Headers args = None then Panic NilMapAssignment
                         else Ok (Some body))))
    \<and> (selectStrategy args = FormData \<longrightarrow>
         w' = w
         \<and> r = (if Headers args = None then Panic NilMapAssignment
                  else returned (prepareDataBody (Data args))))
    \<and> (selectStrategy args = NoBody \<longrightarrow> r = Ok None \<and> args' = args)
    \<and> ((\<exists>body. r = Ok body) \<longrightarrow>
         Headers args' =
           (case strategyContentType lib (selectStrategy args) of
              None \<Rightarrow> Headers args
            | Some (k, v) \<Rightarrow> map_option (AList.update k v) (Headers args)))"
proof (cases "selectStrategy args")
  case ExplicitBody
  then obtain b where "Body args = Some b"
    by (auto simp: selectStrategy_def split: if_splits)
  with assms ExplicitBody show ?thesis
    by (auto simp: prepareBody_def)
next
  case JsonBody
  then obtain j where "Body args = None" "Json args = Some j"
    by (auto simp: selectStrategy_def split: if_splits)
  with assms JsonBody show ?thesis
    by (auto simp: prepareBody_def setHeader_def split: option.splits)
next
  case MultipartFiles
  then obtain fs where f: "Body args = None" "Json args = None" "Files args = Some fs"
    by (auto simp: selectStrategy_def split: if_splits)
  show ?thesis
  proof (cases "prepareFilesBody lib fs (Data args) (streams w)")
    case (Pair res st)
    show ?thesis
    proof (cases res)
      case (Ok bc)
      obtain body ct where bc: "bc = (body, ct)" by (cases bc)
      have "ct = FormDataContentType (randomBoundary lib)"
        using Pair Ok bc prepareFilesBody_contentType by blast
      with assms MultipartFiles f Pair Ok bc show ?thesis
        by (auto simp: prepareBody_def setHeader_def split: option.splits)
    next
      case (Err e)
      with assms MultipartFiles f Pair show ?thesis
        by (auto simp: prepareBody_def setHeader_def split: option.splits)
    next
      case (Panic p)
      with assms MultipartFiles f Pair show ?thesis
        by (auto simp: prepareBody_def setHeader_def split: option.splits)
    qed
  qed
next
  case FormData
  then obtain d where "Body args = None" "Json args = None" "Files args = None"
    "Data args = Some d"
    by (auto simp: selectStrategy_def split: if_splits)
  with assms FormData show ?thesis
    by (auto simp: prepareBody_def setHeader_def split: option.splits)
next
  case NoBody
  then have "Body args = None" "Json args = None" "Files args = None" "Data args = None"
    by (auto simp: selectStrategy_def split: if_splits)
  with assms NoBody show ?thesis
    by (auto simp: prepareBody_def)
qed

text \<open>
  The headers of the bag are applied in the order in which the map is visited, and the
  files strategy writes its type under the key \<open>Content-type\<close>. So an explicit
  \<open>Content-Type\<close> entry of the caller next to files is a second entry for the same
  header, and either of the two reaches the request, depending on the order of the
  visit. Both are the caller's header or the winner's type, never a loser's.
\<close>

lemma files_type_wins_when_visited_last:
  "(case prepareRequest exampleLib ''POST'' ''http://example.com''
           (emptyArgs\<lparr>Headers := Some [(''Content-Type'', ''text/plain'')],
                      Data := Some [(''a'', ''1'')],
                      Files := Some [\<lparr>FileName = ''a.txt'', FieldName = ''file'',
                                      FileContent = Some 0\<rparr>]\<rparr>) exampleWorld of
      (Ok req, args', w') \<Rightarrow>
        Some (Header_Get (Header req) ''Content-Type'', ReqBody req, entries (Headers args'))
    | _ \<Rightarrow> None)
   = Some (''multipart/form-data; boundary=7d1b2c'',
           Some (MultipartBuffer ''7d1b2c''
                   [FormFile ''file'' ''a.txt'' ''file data'', FormField ''a'' ''1'']),
           [(''Content-Type'', ''text/plain''),
            (''Content-type'', ''multipart/form-data; boundary=7d1b2c'')])"
  by code_simp

lemma explicit_type_wins_when_visited_last:
  "(case prepareRequest (exampleLib\<lparr>headerOrder := [1]\<rparr>) ''POST'' ''http://example.com''
           (emptyArgs\<lparr>Headers := Some [(''Content-Type'', ''text/plain'')],
                      Data := Some [(''a'', ''1'')],
                      Files := Some [\<lparr>FileName = ''a.txt'', FieldName = ''file'',
                                      FileContent = Some 0\<rparr>]\<rparr>) exampleWorld of
      (Ok req, args', w') \<Rightarrow>
        Some (Header_Get (Header req) ''Content-Type'', ReqBody req, entries (Headers args'))
    | _ \<Rightarrow> None)
   = Some (''text/plain'',
           Some (MultipartBuffer ''7d1b2c''
                   [FormFile ''file'' ''a.txt'' ''file data'', FormField ''a'' ''1'']),
           [(''Content-Type'', ''text/plain''),
            (''Content-type'', ''multipart/form-data; boundary=7d1b2c'')])"
  by code_simp

text \<open>
  C1. For every argument bag, \<open>prepareBody\<close> does what it does for the bag that holds
  the fields of the first matching strategy only (explicit body, then json, then files,
  then data, then none): same result, same heap, same header map. Nothing but the
  header map of the bag changes. The result is the winner's: the explicit body as it
  is, with the header map untouched; what \<open>prepareJsonBody\<close> returns for the json
  value; what \<open>prepareFilesBody\<close> returns for the files and the data, with the
  heap it leaves; what \<open>prepareDataBody\<close> returns for the data; no body, with the
  header map untouched (json, files and data write a header, so they panic on a nil
  header map; the files strategy after it has encoded). When a body is returned, the
  header map has changed by the one entry of the winning strategy and by nothing of
  the others. A request that \<open>prepareRequest\<close> returns has that body, and its
  headers are the one of the auth pair, if there is one, and over it the entries of
  that map, applied in the order in which the map is visited: no other header.
\<close>

theorem prepareBody_first_match_wins:
  assumes "prepareBody lib args w = (r, args', w')"
  shows "prepareBody lib (onlyStrategy (selectStrategy args) args) w
           = (r, onlyStrategy (selectStrategy args) args', w')
    \<and> args' = args\<lparr>Headers := Headers args'\<rparr>
    \<and> (selectStrategy args = ExplicitBody \<longrightarrow> r = Ok (Body args) \<and> args' = args)
    \<and> (selectStrategy args = JsonBody \<longrightarrow>
         (\<exists>j. Json args = Some j \<and> w' = w
            \<and> r = (if Headers args = None then Panic NilMapAssignment
                     else returned (prepareJsonBody j))))
    \<and> (selectStrategy args = MultipartFiles \<longrightarrow>
         (\<exists>fs res st. Files args = Some fs
            \<and> prepareFilesBody lib fs (Data args) (streams w) = (res, st)
            \<and> w' = w\<lparr>streams := st\<rparr>
            \<and> r = (case res of
                       Panic p \<Rightarrow> Panic p
                     | Err err \<Rightarrow>
                         if Headers args = None then Panic NilMapAssignment else Err err
                     | Ok (body, contentType) \<Rightarrow>
                         if Headers args = None then Panic NilMapAssignment
                         else Ok (Some body))))
    \<and> (selectStrategy args = FormData \<longrightarrow>
         w' = w
         \<and> r = (if Headers args = None then Panic NilMapAssignment
                  else returned (prepareDataBody (Data args))))
    \<and> (selectStrategy args = NoBody \<longrightarrow> r = Ok None \<and> args' = args)
    \<and> ((\<exists>body. r = Ok body) \<longrightarrow>
         Headers args' =
           (case strategyContentType lib (selectStrategy args) of
              None \<Rightarrow> Headers args
            | Some (k, v) \<Rightarrow> map_option (AList.update k v) (Headers args)))
    \<and> (\<forall>method reqUrl req args'' w''.
          prepareRequest lib method reqUrl args w = (Ok req, args'', w'') \<longrightarrow>
            r = Ok (ReqBody req) \<and> args'' = args'
            \<and> Header req
                = foldl (\<lambda>h (k, v). Header_Set h k v)
                    (case Auth args of
                       None \<Rightarrow> []
                     | Some a \<Rightarrow>
                         Header_Set [] ''Authorization''
                           (''Basic '' @ base64_EncodeToString (a ! 0 @ '':'' @ a ! 1)))
                    (rangeMap (headerOrder lib) (entries (Headers args'))))"
proof -
  have "r = Ok (ReqBody req) \<and> args'' = args'
        \<and> Header req
            = foldl (\<lambda>h (k, v). Header_Set h k v)
                (case Auth args of
                   None \<Rightarrow> []
                 | Some a \<Rightarrow>
                     Header_Set [] ''Authorization''
                       (''Basic '' @ base64_EncodeToString (a ! 0 @ '':'' @ a ! 1)))
                (rangeMap (headerOrder lib) (entries (Headers args')))"
    if p: "prepareRequest lib meth reqUrl args w = (Ok req, args'', w'')"
    for meth reqUrl req args'' w''
  proof -
    from prepareRequest_Ok [OF p] obtain reqUrl' body wb r0 r1 where
      b: "prepareBody lib args w = (Ok body, args'', wb)"
      and n: "http_NewRequest lib meth reqUrl' body = Inr r0"
      and a: "prepareRequest_auth (Auth args) (Inr r0) = Ok (Inr r1)"
      and req: "req = r1\<lparr>Header :=
          foldl (\<lambda>h (k, v). Header_Set h k v) (Header r1)
            (rangeMap (headerOrder lib) (entries (Headers args'')))\<rparr>"
      and rb: "ReqBody req = body"
      by blast
    from n have "Header r0 = []"
      by (auto simp: http_NewRequest_def Let_def split: if_splits sum.splits)
    with a have "Header r1 =
        (case Auth args of
           None \<Rightarrow> []
         | Some a \<Rightarrow>
             Header_Set [] ''Authorization''
               (''Basic '' @ base64_EncodeToString (a ! 0 @ '':'' @ a ! 1)))"
      by (auto simp: prepareRequest_auth_def SetBasicAuth_def split: option.splits if_splits)
    with b assms req rb show ?thesis by simp
  qed
  with prepareBody_only_winner [OF assms] show ?thesis by blast
qed

theorem prepareBody_first_match_wins_witness:
  "selectStrategy
     (emptyArgs\<lparr>Json := Some (JsonString ''{}''), Data := Some [(''a'', ''1'')],
                Files := Some [\<lparr>FileName = ''a.txt'', FieldName = ''file'',
                                FileContent = Some 0\<rparr>]\<rparr>) = JsonBody
   \<and> prepareBody exampleLib
        (emptyArgs\<lparr>Json := Some (JsonString ''{}''), Data := None, Files := None\<rparr>)
        exampleWorld
     = (Ok (Some (StringsReader ''{}'')),
        emptyArgs\<lparr>Headers := Some [(''Content-Type'', ''application/json'')],
                  Json := Some (JsonString ''{}''), Data := None, Files := None\<rparr>,
        exampleWorld)"
proof -
  let ?args = "emptyArgs\<lparr>Json := Some (JsonString ''{}''), Data := Some [(''a'', ''1'')],
                Files := Some [\<lparr>FileName = ''a.txt'', FieldName = ''file'',
                                FileContent = Some 0\<rparr>]\<rparr>"
  let ?args' = "?args\<lparr>Headers := Some [(''Content-Type'', ''application/json'')]\<rparr>"
  have s: "selectStrategy ?args = JsonBody"
    by (simp add: selectStrategy_def emptyArgs_def)
  have e: "prepareBody exampleLib ?args exampleWorld
             = (Ok (Some (StringsReader ''{}'')), ?args', exampleWorld)"
    by (simp add: prepareBody_def emptyArgs_def setHeader_def prepareJsonBody_def
        returned_def defaultJsonType_def)
  from prepareBody_first_match_wins [OF e] s show ?thesis
    by (simp add: emptyArgs_def)
qed

section \<open>C2: merging a parameter map into the query\<close>

text \<open>
  Where the URL has a fragment, \<open>mergeParams\<close> appends the new query after it: the
  parameters end up in the fragment and the rebuilt URL has no query.
\<close>

lemma mergeParams_after_fragment:
  "prepareURL exampleLib ''http://simple.org/path/?b=a#frag'' (Some [(''b'', ''b''), (''a'', ''c'')])
     = Inr ''http://simple.org/path/#frag?a=c&b=b''"
  by code_simp

text \<open>
  C2, as amended. For every non-empty parameter map \<open>P\<close> and every base URL that
  parses, has no fragment and whose query string parses, \<open>prepareURL\<close> returns the
  head of the URL, a question mark and an encoded query; parsing the rebuilt URL gives
  that query back as its raw query, and parsing the query gives every key of \<open>P\<close>
  exactly the one value \<open>P\<close> has for it and every other key the values it had in the
  base URL, all of them and in their order. The head is what \<open>URL.String\<close> writes
  before the query; the library escapes \<open>?\<close> and \<open>#\<close> there.
\<close>

theorem prepareURL_sets_params:
  assumes "P \<noteq> []" and "distinct (map fst P)"
    and "url_Parse lib U = Inr u" and "Fragment u = None"
    and "CHR ''?'' \<notin> set (Head u)" and "CHR ''#'' \<notin> set (Head u)"
    and "ParseQuery (RawQuery u) = Inr q0"
  shows "\<exists>e q. prepareURL lib U (Some P) = Inr (Head u @ ''?'' @ e)
           \<and> (\<forall>u'. url_Parse lib (Head u @ ''?'' @ e) = Inr u' \<longrightarrow> RawQuery u' = e)
           \<and> ParseQuery e = Inr q \<and> distinct (map fst q)
           \<and> (\<forall>k. map_of q k = (case map_of P k of Some v \<Rightarrow> Some [v] | None \<Rightarrow> map_of q0 k))"
proof -
  let ?q1 = "foldl (\<lambda>q (k, v). Values_Set q k v) q0 P"
  let ?e = "Values_Encode ?q1"
  have d0: "distinct (map fst q0)" and n0: "nonemptyValues q0"
    using assms(7) by (rule ParseQuery_distinct, rule ParseQuery_nonempty)
  then have d1: "distinct (map fst ?q1)" and n1: "nonemptyValues ?q1"
    using foldl_Set_invariants by blast+
  have url: "prepareURL lib U (Some P) = Inr (Head u @ ''?'' @ ?e)"
    using assms by (simp add: prepareURL_def entries_def mergeParams_no_fragment)
  have again: "\<forall>u'. url_Parse lib (Head u @ ''?'' @ ?e) = Inr u' \<longrightarrow> RawQuery u' = ?e"
    using url_Parse_rebuilt [OF assms(5) assms(6)] by blast
  obtain q where q: "ParseQuery ?e = Inr q" "map_of q = map_of ?q1" "distinct (map fst q)"
    using ParseQuery_Encode_roundtrip [OF d1 n1] by blast
  have "\<forall>k. map_of q k = (case map_of P k of Some v \<Rightarrow> Some [v] | None \<Rightarrow> map_of q0 k)"
    using q(2) map_of_foldl_Set [OF assms(2)] by simp
  with url again q show ?thesis by blast
qed

theorem prepareURL_sets_params_witness:
  "url_Parse exampleLib ''http://simple.org/path/?b=a''
     = Inr \<lparr>Head = ''http://simple.org/path/'', RawQuery = ''b=a'', ForceQuery = False,
            Fragment = None\<rparr>
   \<and> ParseQuery ''b=a'' = Inr [(''b'', [''a''])]
   \<and> prepareURL exampleLib ''http://simple.org/path/?b=a'' (Some [(''b'', ''b''), (''a'', ''c'')])
       = Inr ''http://simple.org/path/?a=c&b=b''
   \<and> (\<exists>e q. prepareURL exampleLib ''http://simple.org/path/?b=a''
                (Some [(''b'', ''b''), (''a'', ''c'')])
              = Inr (''http://simple.org/path/'' @ ''?'' @ e)
           \<and> ParseQuery e = Inr q \<and> distinct (map fst q)
           \<and> map_of q ''a'' = Some [''c''] \<and> map_of q ''b'' = Some [''b''])"
proof -
  let ?u = "\<lparr>Head = ''http://simple.org/path/'', RawQuery = ''b=a'', ForceQuery = False,
            Fragment = None\<rparr>"
  let ?P = "[(''b'', ''b''), (''a'', ''c'')]"
  have p: "url_Parse exampleLib ''http://simple.org/path/?b=a'' = Inr ?u"
    by code_simp
  have q0: "ParseQuery (RawQuery ?u) = Inr [(''b'', [''a''])]"
    by code_simp
  have r: "prepareURL exampleLib ''http://simple.org/path/?b=a'' (Some ?P)
       = Inr ''http://simple.org/path/?a=c&b=b''"
    by code_simp
  have h: "?P \<noteq> []" "distinct (map fst ?P)" "Fragment ?u = None"
    "CHR ''?'' \<notin> set (Head ?u)" "CHR ''#'' \<notin> set (Head ?u)"
    by simp_all
  from prepareURL_sets_params [OF h(1) h(2) p h(3) h(4) h(5) q0]
  obtain e q where "prepareURL exampleLib ''http://simple.org/path/?b=a'' (Some ?P)
        = Inr (Head ?u @ ''?'' @ e)" "ParseQuery e = Inr q" "distinct (map fst q)"
      "\<forall>k. map_of q k = (case map_of ?P k of Some v \<Rightarrow> Some [v] | None \<Rightarrow> map_of [(''b'', [''a''])] k)"
    by blast
  then have "\<exists>e q. prepareURL exampleLib ''http://simple.org/path/?b=a'' (Some ?P)
              = Inr (''http://simple.org/path/'' @ ''?'' @ e)
           \<and> ParseQuery e = Inr q \<and> distinct (map fst q)
           \<and> map_of q ''a'' = Some [''c''] \<and> map_of q ''b'' = Some [''b'']"
    by (intro exI [of _ e] exI [of _ q]) simp
  with p q0 r show ?thesis by simp
qed

text \<open>
  The claim as first stated fails: a key of the base URL that is not in \<open>P\<close> and
  occurs twice is kept twice.
\<close>

theorem prepareURL_keeps_repeated_keys:
  "prepareURL exampleLib ''http://x/?b=1&b=2'' (Some [(''a'', ''1'')])
     = Inr ''http://x/?a=1&b=1&b=2''
   \<and> ParseQuery ''a=1&b=1&b=2'' = Inr [(''a'', [''1'']), (''b'', [''1'', ''2''])]"
  by code_simp

section \<open>C3: the inferred Content-Type and an explicit one\<close>

text \<open>
  C3, as amended. When the json or the data strategy is active (and the header map is
  not nil), body resolution writes the inferred Content-Type into the header map of the
  bag under the key \<open>Content-Type\<close>, where it replaces an explicit entry under that
  key; this is its one write to the map. The headers are applied afterwards, in
  whichever order the map is visited. Provided
  no other key of the map canonicalises to \<open>Content-Type\<close>, exactly one entry of
  the map then sets the Content-Type header of the request, and the assembled request
  carries the inferred Content-Type, not the explicit one.
\<close>

theorem inferred_content_type_replaces_explicit:
  assumes "selectStrategy args = JsonBody \<and> ct = defaultJsonType
         \<or> selectStrategy args = FormData \<and> ct = defaultContentType"
    and "Headers args = Some hs" and "distinct (map fst hs)"
    and "\<forall>k \<in> fst ` set hs.
           k \<noteq> ''Content-Type'' \<longrightarrow> CanonicalMIMEHeaderKey k \<noteq> ''Content-Type''"
    and "prepareRequest lib method reqUrl args w = (Ok req, args', w')"
  shows "Headers args' = Some (AList.update ''Content-Type'' ct hs)
    \<and> filter (\<lambda>kv. CanonicalMIMEHeaderKey (fst kv) = ''Content-Type'')
          (entries (Headers args')) = [(''Content-Type'', ct)]
    \<and> Header_Get (Header req) ''Content-Type'' = ct"
proof -
  from prepareRequest_Ok [OF assms(5)] obtain reqUrl' body wb r0 r1 where
    b: "prepareBody lib args w = (Ok body, args', wb)"
    and n: "http_NewRequest lib method reqUrl' body = Inr r0"
    and a: "prepareRequest_auth (Auth args) (Inr r0) = Ok (Inr r1)"
    and req: "req = r1\<lparr>Header :=
          foldl (\<lambda>h (k, v). Header_Set h k v) (Header r1)
            (rangeMap (headerOrder lib) (entries (Headers args')))\<rparr>"
    by blast
  let ?hs' = "AList.update ''Content-Type'' ct hs"
  have "strategyContentType lib (selectStrategy args) = Some (''Content-Type'', ct)"
    using assms(1) by auto
  with prepareBody_headers [OF b] assms(2)
  have hs': "Headers args' = Some ?hs'"
    by simp
  have d: "distinct (map fst ?hs')"
    using assms(3) by (rule distinct_update)
  have m: "map_of ?hs' ''Content-Type'' = Some ct"
    by (simp add: update_conv')
  have u: "\<forall>k \<in> fst ` set ?hs'. k \<noteq> ''Content-Type''
      \<longrightarrow> CanonicalMIMEHeaderKey k \<noteq> CanonicalMIMEHeaderKey ''Content-Type''"
    using assms(4) by (auto simp: dom_update canon_Content_Type)
  have "vals (Header req) (CanonicalMIMEHeaderKey ''Content-Type'') = [ct]"
    using vals_apply_headers_unique_any_order [OF d m u] req hs' by (simp add: entries_def)
  then have "Header_Get (Header req) ''Content-Type'' = ct"
    by (simp add: Header_Get_def)
  moreover have "\<forall>k \<in> fst ` set ?hs'.
      CanonicalMIMEHeaderKey k = ''Content-Type'' \<longleftrightarrow> k = ''Content-Type''"
    using u by (auto simp: canon_Content_Type)
  then have "filter (\<lambda>kv. CanonicalMIMEHeaderKey (fst kv) = ''Content-Type'') ?hs'
      = [(''Content-Type'', ct)]"
    by (rule filter_unique_key [OF d m])
  ultimately show ?thesis using hs' by (simp add: entries_def)
qed

theorem inferred_content_type_replaces_explicit_witness:
  "selectStrategy
     (emptyArgs\<lparr>Headers := Some [(''Content-Type'', ''text/plain'')],
                Json := Some (JsonString ''{}'')\<rparr>) = JsonBody
   \<and> (\<exists>req args' w'.
        prepareRequest exampleLib ''POST'' ''http://example.com''
          (emptyArgs\<lparr>Headers := Some [(''Content-Type'', ''text/plain'')],
                     Json := Some (JsonString ''{}'')\<rparr>) exampleWorld
          = (Ok req, args', w')
        \<and> Headers args' = Some [(''Content-Type'', ''application/json'')]
        \<and> Header_Get (Header req) ''Content-Type'' = ''application/json'')"
proof -
  let ?args = "emptyArgs\<lparr>Headers := Some [(''Content-Type'', ''text/plain'')],
                Json := Some (JsonString ''{}'')\<rparr>"
  obtain r args' w' where
    e: "prepareRequest exampleLib ''POST'' ''http://example.com'' ?args exampleWorld
          = (r, args', w')"
    by (cases "prepareRequest exampleLib ''POST'' ''http://example.com'' ?args exampleWorld")
  have "fst (prepareRequest exampleLib ''POST'' ''http://example.com'' ?args exampleWorld)
      = Ok \<lparr>Method = ''POST'',
             ReqURL = \<lparr>Head = ''http://example.com'', RawQuery = [], ForceQuery = False,
                       Fragment = None\<rparr>,
             Header = [(''Content-Type'', [''application/json''])],
             ReqBody = Some (StringsReader ''{}'')\<rparr>"
    by code_simp
  with e obtain req where ok: "r = Ok req" by simp
  have s: "selectStrategy ?args = JsonBody"
    by (simp add: selectStrategy_def emptyArgs_def)
  have h: "Headers ?args = Some [(''Content-Type'', ''text/plain'')]"
    "distinct (map fst [(''Content-Type'', ''text/plain'')])"
    "\<forall>k \<in> fst ` set [(''Content-Type'', ''text/plain'')].
       k \<noteq> ''Content-Type'' \<longrightarrow> CanonicalMIMEHeaderKey k \<noteq> ''Content-Type''"
    by simp_all
  from inferred_content_type_replaces_explicit
    [of ?args "defaultJsonType", OF _ h e [unfolded ok]] s
  have "Headers args' = Some [(''Content-Type'', ''application/json'')]
    \<and> Header_Get (Header req) ''Content-Type'' = ''application/json''"
    by (simp add: defaultJsonType_def)
  with e ok s show ?thesis by blast
qed

text \<open>
  The claim as first stated fails: an explicit \<open>Content-Type: text/plain\<close> next to a
  json body does not reach the request.
\<close>

theorem explicit_content_type_is_lost:
  "fst (prepareRequest exampleLib ''POST'' ''http://example.com''
          (emptyArgs\<lparr>Headers := Some [(''Content-Type'', ''text/plain'')],
                     Json := Some (JsonString ''{}'')\<rparr>) exampleWorld)
     = Ok \<lparr>Method = ''POST'',
            ReqURL = \<lparr>Head = ''http://example.com'', RawQuery = [], ForceQuery = False,
                      Fragment = None\<rparr>,
            Header = [(''Content-Type'', [''application/json''])],
            ReqBody = Some (StringsReader ''{}'')\<rparr>"
  by code_simp

section \<open>C4: a failing construction stage\<close>

text \<open>
  What holds: an error of the URL stage or of the body stage is returned, with no
  request.
\<close>

lemma prepareRequest_url_error:
  "prepareRequest_url lib reqUrl args = Inl err
     \<Longrightarrow> prepareRequest lib method reqUrl args w = (Err err, args, w)"
  by (simp add: prepareRequest_def)

lemma prepareRequest_body_error:
  "prepareRequest_url lib reqUrl args = Inr reqUrl'
     \<Longrightarrow> prepareBody lib args w = (Err err, args', w')
     \<Longrightarrow> prepareRequest lib method reqUrl args w
           = (Err (Wrapped ''prepareRequest error'' err), args', w')"
  by (simp add: prepareRequest_def)

text \<open>
  When \<open>http.NewRequest\<close> fails, its error is returned only if nothing touches the
  nil request on the way: no auth, no header to apply, and no cookie map to inject.
\<close>

lemma prepareRequest_NewRequest_error:
  assumes "prepareRequest_url lib reqUrl args = Inr reqUrl'"
    and "prepareBody lib args w = (Ok body, args', w')"
    and "http_NewRequest lib method reqUrl' body = Inl err"
    and "Auth args' = None" and "entries (Headers args') = []"
    and "CookieJar args' = None" and "Cookies args' = None"
  shows "prepareRequest lib method reqUrl args w = (Err err, args', w')"
  using assms
  by (simp add: prepareRequest_def prepareRequest_auth_def prepareRequest_headers_def
      prepareCookies_def)

text \<open>
  C4 says that whenever a construction stage fails, \<open>prepareRequest\<close> returns an
  error with no request and never panics. It fails on the code for the stage of
  \<open>http.NewRequest\<close>. A URL with a control character does not parse, so
  \<open>http.NewRequest\<close> returns nil and an error; \<open>prepareRequest\<close> looks at the error
  only in its last line, and applying the one header of the bag to the nil request
  panics.
\<close>

theorem prepareRequest_panics_when_NewRequest_fails:
  "fst (prepareRequest exampleLib ''GET'' (''http://example.com'' @ [CHR 0x0A])
          (emptyArgs\<lparr>Headers := Some [(''User-Agent'', ''requests4go'')]\<rparr>) exampleWorld)
     = Panic NilDereference"
  by code_simp

section \<open>C5: closing the file streams\<close>

text \<open>
  What holds: when all files are copied, every stream has been closed once for each
  file field that holds it.
\<close>

lemma copyFiles_closes:
  "copyFiles writer files st = (Ok writer', st')
     \<Longrightarrow> closes (st' h) = closes (st h) + count_list (map FileContent files) (Some h)"
proof (induction files arbitrary: writer st)
  case Nil
  then show ?case by simp
next
  case (Cons f files)
  from Cons.prems obtain g where g: "FileContent f = Some g"
    by (auto simp: multipart_CreateFormFile_def split: option.splits)
  let ?src = "(st g)\<lparr>content := []\<rparr>"
  let ?st1 = "st(g := ?src\<lparr>closes := Suc (closes ?src)\<rparr>)"
  from Cons.prems g obtain written where
    rest: "copyFiles written files ?st1 = (Ok writer', st')"
    by (auto simp: multipart_CreateFormFile_def io_Copy_def stream_Close_def
        split: if_splits)
  from Cons.IH [OF rest] g show ?case by auto
qed

lemma prepareFilesBody_closes:
  "prepareFilesBody lib files data st = (Ok x, st')
     \<Longrightarrow> closes (st' h) = closes (st h) + count_list (map FileContent files) (Some h)"
  by (auto simp: prepareFilesBody_def split: prod.splits outcome.splits sum.splits
      dest: copyFiles_closes)

text \<open>
  One stream held by two file fields, when it behaves like a file: the second
  \<open>io.Copy\<close> fails on the closed stream, which has been closed once.
\<close>

lemma stream_held_twice_is_closed_once:
  "(case prepareFilesBody exampleLib
           [\<lparr>FileName = ''a.txt'', FieldName = ''file'', FileContent = Some 7\<rparr>,
            \<lparr>FileName = ''b.txt'', FieldName = ''file2'', FileContent = Some 7\<rparr>]
           None (streams exampleWorld) of
      (r, st) \<Rightarrow> (r, closes (st 7)))
   = (Err (LibError ''read''), 1)"
  by code_simp

text \<open>
  C5 says that every file stream is closed exactly once, also when encoding fails
  midway. It fails on the code. The first file cannot be read: \<open>prepareFilesBody\<close> returns the
  error of \<open>io.Copy\<close> at once, and neither that stream nor the stream of the second
  file is ever closed.
\<close>

theorem unread_files_are_never_closed:
  "(case prepareFilesBody exampleLib
           [\<lparr>FileName = ''a.txt'', FieldName = ''file'', FileContent = Some 1\<rparr>,
            \<lparr>FileName = ''b.txt'', FieldName = ''file2'', FileContent = Some 3\<rparr>]
           None (streams exampleWorld) of
      (r, st) \<Rightarrow> (r, closes (st 1), closes (st 3)))
   = (Err (LibError ''read''), 0, 0)"
  by code_simp

section \<open>C6: cookies\<close>

text \<open>
  C6, as amended. When an explicit cookie jar is supplied, \<open>prepareCookies\<close> stores
  it in the \<open>Jar\<close> field of the client the bag points to: the client itself is
  changed and keeps the jar after the call, nothing is copied or restored, and no jar
  is written to. When no explicit jar but a cookie map is supplied (and the client has
  a jar), the jar's cookies for the request's URL with the supplied cookies appended
  are written back into that jar for that URL, and no client is changed. When neither
  is supplied, nothing changes.
\<close>

theorem prepareCookies_effect:
  "(CookieJar args = Some jar \<and> Client args = Some c \<longrightarrow>
      prepareCookies lib args req w = (Ok (), w\<lparr>clientJar := (clientJar w)(c := Some jar)\<rparr>))
   \<and> (CookieJar args = None \<and> Cookies args = Some cookieMap \<and> Client args = Some c
        \<and> clientJar w c = Some jar \<and> req = Some r \<longrightarrow>
      prepareCookies lib args req w =
        (Ok (), w\<lparr>jars := (jars w)(jar :=
            jar_SetCookies lib (jars w jar) (ReqURL r)
              (jar_Cookies lib (jars w jar) (ReqURL r) @ cookiesFromMap cookieMap))\<rparr>))
   \<and> (CookieJar args = None \<and> Cookies args = None \<longrightarrow>
      prepareCookies lib args req w = (Ok (), w))"
  by (simp add: prepareCookies_def)

theorem prepareCookies_effect_witness:
  "jars
     (snd (prepareCookies exampleLib
             (emptyArgs\<lparr>Cookies := Some [(''Key1'', ''Value1''), (''Key2'', ''Value2'')]\<rparr>)
             (Some \<lparr>Method = ''POST'',
                    ReqURL = \<lparr>Head = ''http://example.com'', RawQuery = [],
                              ForceQuery = False, Fragment = None\<rparr>,
                    Header = [], ReqBody = None\<rparr>)
             exampleWorld)) 0
   = [(''http://example.com'',
       [\<lparr>Name = ''Key1'', Value = ''Value1''\<rparr>, \<lparr>Name = ''Key2'', Value = ''Value2''\<rparr>])]"
proof -
  let ?args = "emptyArgs\<lparr>Cookies := Some [(''Key1'', ''Value1''), (''Key2'', ''Value2'')]\<rparr>"
  let ?r = "\<lparr>Method = ''POST'',
             ReqURL = \<lparr>Head = ''http://example.com'', RawQuery = [],
                       ForceQuery = False, Fragment = None\<rparr>,
             Header = [], ReqBody = None\<rparr>"
  have h: "CookieJar ?args = None \<and> Cookies ?args = Some [(''Key1'', ''Value1''), (''Key2'', ''Value2'')]
      \<and> Client ?args = Some 0 \<and> clientJar exampleWorld 0 = Some 0 \<and> Some ?r = Some ?r"
    by (simp add: emptyArgs_def exampleWorld_def)
  from prepareCookies_effect
    [where args = ?args and c = 0 and lib = exampleLib and req = "Some ?r"
      and w = exampleWorld and cookieMap = "[(''Key1'', ''Value1''), (''Key2'', ''Value2'')]"
      and jar = 0 and r = ?r] h
  have "prepareCookies exampleLib ?args (Some ?r) exampleWorld =
        (Ok (), exampleWorld\<lparr>jars := (jars exampleWorld)(0 :=
            jar_SetCookies exampleLib (jars exampleWorld 0) (ReqURL ?r)
              (jar_Cookies exampleLib (jars exampleWorld 0) (ReqURL ?r)
                @ cookiesFromMap [(''Key1'', ''Value1''), (''Key2'', ''Value2'')]))\<rparr>)"
    by blast
  then show ?thesis
    by (simp add: exampleLib_def exampleWorld_def cookiesFromMap_def)
qed

text \<open>
  The claim as first stated fails: the client's jar field is overwritten. Client 0
  holds jar 0 before the call and jar 5 after it.
\<close>

theorem explicit_jar_overwrites_client_jar:
  "clientJar exampleWorld 0 = Some 0
   \<and> clientJar
       (snd (prepareCookies exampleLib (emptyArgs\<lparr>CookieJar := Some 5\<rparr>) None exampleWorld)) 0
     = Some 5"
  by code_simp

section \<open>C7: params win over the structured object\<close>






section \<open>C8: merging a structured object into the query\<close>

text \<open>
  What holds: for every base URL that parses, has no fragment and whose query string
  parses, and every structured object that \<open>query.Values\<close> encodes,
  \<open>prepareURLWithStruct\<close> returns the head of the URL, a question mark and an encoded
  query; parsing the rebuilt URL gives that query back as its raw query, and parsing
  the query gives, for every key, the values the base URL had for it followed by the
  values of the object for it, in the object's order: nothing is overwritten and a key
  with several values keeps them all.
\<close>

lemma prepareURLWithStruct_adds_values:
  assumes "url_Parse lib U = Inr u" and "Fragment u = None"
    and "CHR ''?'' \<notin> set (Head u)" and "CHR ''#'' \<notin> set (Head u)"
    and "ParseQuery (RawQuery u) = Inr q0" and "distinct (map fst ps)"
  shows "\<exists>e q. prepareURLWithStruct lib U (Inr ps) = Inr (Head u @ ''?'' @ e)
           \<and> (\<forall>u'. url_Parse lib (Head u @ ''?'' @ e) = Inr u' \<longrightarrow> RawQuery u' = e)
           \<and> ParseQuery e = Inr q
           \<and> (\<forall>k. vals q k = vals q0 k @ vals ps k)"
proof -
  let ?q1 = "foldl addAll q0 ps"
  let ?e = "Values_Encode ?q1"
  let ?q = "foldl (\<lambda>m kv. Values_Add m (fst kv) (snd kv)) [] (pairsOf ?q1)"
  have "distinct (map fst q0)"
    using assms(5) by (rule ParseQuery_distinct)
  then have d1: "distinct (map fst ?q1)"
    by (rule distinct_foldl_addAll)
  have url: "prepareURLWithStruct lib U (Inr ps) = Inr (Head u @ ''?'' @ ?e)"
    using assms by (simp add: prepareURLWithStruct_def mergeParams_no_fragment)
  have again: "\<forall>u'. url_Parse lib (Head u @ ''?'' @ ?e) = Inr u' \<longrightarrow> RawQuery u' = ?e"
    using url_Parse_rebuilt [OF assms(3) assms(4)] by blast
  have q: "ParseQuery ?e = Inr ?q"
    by (rule ParseQuery_Values_Encode)
  have "vals ?q k = vals q0 k @ vals ps k" for k
  proof -
    have "vals ?q k = vals ?q1 k"
      by (simp add: vals_foldl_Add filter_pairsOf [OF d1]) (simp add: vals_def)
    also have "\<dots> = vals q0 k @ vals ps k"
      by (simp add: vals_foldl_addAll concat_values_distinct [OF assms(6)])
    finally show ?thesis .
  qed
  with url again q show ?thesis by blast
qed

lemma prepareURLWithStruct_adds_values_example:
  "url_Parse exampleLib ''http://x/?b=1&b=2''
     = Inr \<lparr>Head = ''http://x/'', RawQuery = ''b=1&b=2'', ForceQuery = False, Fragment = None\<rparr>
   \<and> ParseQuery ''b=1&b=2'' = Inr [(''b'', [''1'', ''2''])]
   \<and> prepareURLWithStruct exampleLib ''http://x/?b=1&b=2''
        (Inr [(''b'', [''3'', ''4'']), (''a'', [''x''])])
       = Inr ''http://x/?a=x&b=1&b=2&b=3&b=4''
   \<and> (\<exists>e q. prepareURLWithStruct exampleLib ''http://x/?b=1&b=2''
                (Inr [(''b'', [''3'', ''4'']), (''a'', [''x''])])
              = Inr (''http://x/'' @ ''?'' @ e)
           \<and> ParseQuery e = Inr q
           \<and> vals q ''b'' = [''1'', ''2'', ''3'', ''4''] \<and> vals q ''a'' = [''x''])"
proof -
  let ?u = "\<lparr>Head = ''http://x/'', RawQuery = ''b=1&b=2'', ForceQuery = False, Fragment = None\<rparr>"
  let ?ps = "[(''b'', [''3'', ''4'']), (''a'', [''x''])]"
  have p: "url_Parse exampleLib ''http://x/?b=1&b=2'' = Inr ?u"
    by code_simp
  have q0: "ParseQuery (RawQuery ?u) = Inr [(''b'', [''1'', ''2''])]"
    by code_simp
  have r: "prepareURLWithStruct exampleLib ''http://x/?b=1&b=2'' (Inr ?ps)
       = Inr ''http://x/?a=x&b=1&b=2&b=3&b=4''"
    by code_simp
  have h: "Fragment ?u = None" "CHR ''?'' \<notin> set (Head ?u)" "CHR ''#'' \<notin> set (Head ?u)"
    "distinct (map fst ?ps)"
    by simp_all
  from prepareURLWithStruct_adds_values [OF p h(1) h(2) h(3) q0 h(4)]
  obtain e q where "prepareURLWithStruct exampleLib ''http://x/?b=1&b=2'' (Inr ?ps)
        = Inr (Head ?u @ ''?'' @ e)" "ParseQuery e = Inr q"
      "\<forall>k. vals q k = vals [(''b'', [''1'', ''2''])] k @ vals ?ps k"
    by blast
  then have "\<exists>e q. prepareURLWithStruct exampleLib ''http://x/?b=1&b=2'' (Inr ?ps)
              = Inr (''http://x/'' @ ''?'' @ e)
           \<and> ParseQuery e = Inr q
           \<and> vals q ''b'' = [''1'', ''2'', ''3'', ''4''] \<and> vals q ''a'' = [''x'']"
    by (intro exI [of _ e] exI [of _ q]) (simp add: vals_def)
  with p q0 r show ?thesis by simp
qed

text \<open>
  A base URL that parses but whose query string does not is answered with an error; the
  spec counts it among the malformed URLs.
\<close>

lemma prepareURLWithStruct_rejects_bad_query:
  "url_Parse exampleLib ''http://x/?a=%zz''
     = Inr \<lparr>Head = ''http://x/'', RawQuery = ''a=%zz'', ForceQuery = False, Fragment = None\<rparr>
   \<and> prepareURLWithStruct exampleLib ''http://x/?a=%zz'' (Inr [(''k'', [''v''])])
     = Inl (Wrapped ''prepareURLWithStruct error'' (LibError ''net/url: invalid query''))"
  by code_simp

text \<open>
  C8 says that for every parsable base URL the structured-object merge adds the values
  of the object to the existing query of the URL, and that they are all in the query
  string of the rebuilt URL. It fails on the code for a base URL with a fragment. The
  URL parses, with the query \<open>b=1\<close> and the fragment \<open>frag\<close>;
  \<open>mergeParams\<close> cuts the old query out of the text of the URL and appends the merged
  query to what is left, which ends in the fragment. The URL that
  \<open>prepareURLWithStruct\<close> returns parses again, and it has no query at all: the
  existing value and the value of the object are both part of its fragment.
\<close>

theorem prepareURLWithStruct_puts_query_behind_fragment:
  "url_Parse exampleLib ''http://x/?b=1#frag''
     = Inr \<lparr>Head = ''http://x/'', RawQuery = ''b=1'', ForceQuery = False,
            Fragment = Some ''frag''\<rparr>
   \<and> prepareURLWithStruct exampleLib ''http://x/?b=1#frag'' (Inr [(''a'', [''x''])])
     = Inr ''http://x/#frag?a=x&b=1''
   \<and> url_Parse exampleLib ''http://x/#frag?a=x&b=1''
     = Inr \<lparr>Head = ''http://x/'', RawQuery = [], ForceQuery = False,
            Fragment = Some ''frag?a=x&b=1''\<rparr>"
  by code_simp

section \<open>C9: Basic authentication, set and read back\<close>

text \<open>
  C9, as amended. For every password and every username without a colon (either may
  be empty, the password may contain colons), when \<open>prepareRequest\<close> returns a
  request for a bag whose \<open>Auth\<close> starts with that pair and whose header map has no
  key that canonicalises to \<open>Authorization\<close> (such a header is applied after the
  auth and replaces it), decoding the request's \<open>Authorization\<close> header gives the
  pair back.
\<close>

theorem basic_auth_roundtrip:
  assumes "prepareRequest lib method reqUrl args w = (Ok req, args', w')"
    and "Auth args = Some (username # password # rest)"
    and "CHR '':'' \<notin> set username"
    and "\<forall>k \<in> fst ` set (entries (Headers args)). CanonicalMIMEHeaderKey k \<noteq> ''Authorization''"
  shows "BasicAuth req = Some (username, password)"
proof -
  from prepareRequest_Ok [OF assms(1)] obtain reqUrl' body wb r0 r1 where
    b: "prepareBody lib args w = (Ok body, args', wb)"
    and n: "http_NewRequest lib method reqUrl' body = Inr r0"
    and a: "prepareRequest_auth (Auth args) (Inr r0) = Ok (Inr r1)"
    and req: "req = r1\<lparr>Header :=
          foldl (\<lambda>h (k, v). Header_Set h k v) (Header r1)
            (rangeMap (headerOrder lib) (entries (Headers args')))\<rparr>"
    by blast
  let ?v = "''Basic '' @ base64_EncodeToString (username @ '':'' @ password)"
  from a assms(2) have r1: "r1 = SetBasicAuth r0 username password"
    by (simp add: prepareRequest_auth_def)
  have keys: "\<forall>k \<in> fst ` set (entries (Headers args')).
      CanonicalMIMEHeaderKey k \<noteq> ''Authorization''"
  proof (cases "strategyContentType lib (selectStrategy args)")
    case None
    with prepareBody_headers [OF b] assms(4) show ?thesis by simp
  next
    case (Some kv)
    obtain k v where kv: "kv = (k, v)" by (cases kv)
    with Some have "k = ''Content-Type'' \<or> k = ''Content-type''"
      by (cases "selectStrategy args") auto
    then have k: "CanonicalMIMEHeaderKey k \<noteq> ''Authorization''"
      using canon_Content_Type canon_Content_type by auto
    from prepareBody_headers [OF b] Some kv
    have "Headers args' = map_option (AList.update k v) (Headers args)" by simp
    with assms(4) k show ?thesis
      by (cases "Headers args") (auto simp: entries_def dom_update)
  qed
  have "vals (Header r1) ''Authorization'' = [?v]"
    by (simp add: r1 SetBasicAuth_def vals_Header_Set canon_Authorization)
  then have "vals (Header req) ''Authorization'' = [?v]"
    using vals_apply_headers_other_any_order [OF keys] req by simp
  then have "Header_Get (Header req) ''Authorization'' = ?v"
    by (simp add: Header_Get_def canon_Authorization)
  then show ?thesis
    using parseBasicAuth_encode [OF assms(3)] by (simp add: BasicAuth_def)
qed

theorem basic_auth_roundtrip_witness:
  "\<exists>req args' w'.
     prepareRequest exampleLib ''GET'' ''http://example.com''
       (emptyArgs\<lparr>Auth := Some [''Aladdin'', ''open:sesame'']\<rparr>) exampleWorld
       = (Ok req, args', w')
     \<and> Header_Get (Header req) ''Authorization'' = ''Basic QWxhZGRpbjpvcGVuOnNlc2FtZQ==''
     \<and> BasicAuth req = Some (''Aladdin'', ''open:sesame'')"
proof -
  let ?args = "emptyArgs\<lparr>Auth := Some [''Aladdin'', ''open:sesame'']\<rparr>"
  obtain r args' w' where
    e: "prepareRequest exampleLib ''GET'' ''http://example.com'' ?args exampleWorld
          = (r, args', w')"
    by (cases "prepareRequest exampleLib ''GET'' ''http://example.com'' ?args exampleWorld")
  have "fst (prepareRequest exampleLib ''GET'' ''http://example.com'' ?args exampleWorld)
      = Ok \<lparr>Method = ''GET'',
             ReqURL = \<lparr>Head = ''http://example.com'', RawQuery = [], ForceQuery = False,
                       Fragment = None\<rparr>,
             Header = [(''Authorization'', [''Basic QWxhZGRpbjpvcGVuOnNlc2FtZQ==''])],
             ReqBody = None\<rparr>"
    by code_simp
  with e obtain req where ok: "r = Ok req"
    and hdr: "Header req = [(''Authorization'', [''Basic QWxhZGRpbjpvcGVuOnNlc2FtZQ==''])]"
    by simp
  have g: "Header_Get (Header req) ''Authorization'' = ''Basic QWxhZGRpbjpvcGVuOnNlc2FtZQ==''"
    by (simp add: hdr Header_Get_def canon_Authorization vals_def)
  have h: "Auth ?args = Some (''Aladdin'' # ''open:sesame'' # [])"
    "CHR '':'' \<notin> set ''Aladdin''"
    "\<forall>k \<in> fst ` set (entries (Headers ?args)). CanonicalMIMEHeaderKey k \<noteq> ''Authorization''"
    by (simp_all add: emptyArgs_def entries_def)
  from basic_auth_roundtrip [OF e [unfolded ok] h]
  have "BasicAuth req = Some (''Aladdin'', ''open:sesame'')" .
  with e ok g show ?thesis by blast
qed

text \<open>
  The claim as first stated fails: a colon in the username moves to the password when
  the header is read back.
\<close>

theorem username_with_colon_is_not_recovered:
  "(case fst (prepareRequest exampleLib ''GET'' ''http://example.com''
               (emptyArgs\<lparr>Auth := Some [''a:b'', ''c'']\<rparr>) exampleWorld) of
      Ok req \<Rightarrow> BasicAuth req
    | _ \<Rightarrow> None)
   = Some (''a'', ''b:c'')"
  by code_simp

section \<open>C10: an Auth slice that is too short\<close>

text \<open>
  C10, as amended. If \<open>Auth\<close> is a non-nil slice with fewer than two elements and
  the URL stage and the body stage have returned without an error, \<open>prepareRequest\<close>
  panics with an index out of range, whatever \<open>http.NewRequest\<close> returned. (When an
  earlier stage fails, its error is returned and \<open>Auth\<close> is never indexed.)
\<close>

theorem short_auth_panics:
  assumes "prepareRequest_url lib reqUrl args = Inr reqUrl'"
    and "prepareBody lib args w = (Ok body, args', w')"
    and "Auth args = Some a" and "length a < 2"
  shows "prepareRequest lib method reqUrl args w = (Panic IndexOutOfRange, args', w')"
proof -
  have "Auth args' = Some a"
    using prepareBody_Auth [OF assms(2)] assms(3) by simp
  then show ?thesis
    using assms by (simp add: prepareRequest_def prepareRequest_auth_def)
qed

theorem short_auth_panics_witness:
  "prepareRequest_url exampleLib ''http://example.com'' (emptyArgs\<lparr>Auth := Some [''user'']\<rparr>)
     = Inr ''http://example.com''
   \<and> fst (prepareRequest exampleLib ''GET'' ''http://example.com''
            (emptyArgs\<lparr>Auth := Some [''user'']\<rparr>) exampleWorld)
     = Panic IndexOutOfRange"
proof -
  let ?args = "emptyArgs\<lparr>Auth := Some [''user'']\<rparr>"
  have u: "prepareRequest_url exampleLib ''http://example.com'' ?args = Inr ''http://example.com''"
    by (simp add: prepareRequest_url_def emptyArgs_def entries_def)
  have b: "prepareBody exampleLib ?args exampleWorld = (Ok None, ?args, exampleWorld)"
    by (simp add: prepareBody_def emptyArgs_def)
  have a: "Auth ?args = Some [''user'']" "length [''user''] < 2"
    by simp_all
  from short_auth_panics [OF u b a, of "''GET''"] u show ?thesis by simp
qed

text \<open>
  The claim as first stated fails: with a value that \<open>json.Marshal\<close> rejects, the
  body stage returns its error before \<open>Auth\<close> is indexed, and a one-element
  \<open>Auth\<close> does not panic.
\<close>

theorem short_auth_behind_failing_body:
  "fst (prepareRequest exampleLib ''GET'' ''http://example.com''
          (emptyArgs\<lparr>Auth := Some [''user''],
                     Json := Some (JsonValue (Inl (LibError ''json: unsupported type'')))\<rparr>)
          exampleWorld)
     = Err (Wrapped ''prepareRequest error''
             (Wrapped ''prepareJsonBody error'' (LibError ''json: unsupported type'')))"
  by code_simp

end
